theory Spec2Isabelle
  imports Complex_Main "HOL-Library.AList"
begin

section \<open>Values thrown by the code\<close>

text \<open>
  JavaScript can throw any value. The code asks of a caught value whether it is an
  \<^verbatim>\<open>Error\<close> (and then reads its message), or reads its \<^verbatim>\<open>message\<close> property
  without asking. Reading a property of \<^verbatim>\<open>null\<close> or \<^verbatim>\<open>undefined\<close> throws a
  \<^verbatim>\<open>TypeError\<close>, so these two are kept apart from the other values that are not an
  \<^verbatim>\<open>Error\<close>.
\<close>

datatype thrown = Error string | NonError | Nullish

section \<open>src/lib/token-manager.ts\<close>

subsection \<open>Data\<close>

text \<open>
  The values of JSON. A number is the rational its numeral denotes. The properties of
  an object are a list of names and values; what \<^verbatim>\<open>JSON.parse\<close> returns has each
  name once.
\<close>

datatype json =
    JNull | JBool bool | JNum rat | JStr string | JArr "json list" | JObj "(string \<times> json) list"

text \<open>
  The map is declared \<^verbatim>\<open>Map<string, { token: string; expiresAt: number }>\<close>, but
  \<^verbatim>\<open>loadTokens\<close> fills it with whatever the stored text holds (the cast
  \<^verbatim>\<open>value as {...}\<close> checks nothing), so its values are JSON values. It is an
  association list with the update of a JavaScript map (\<open>AList.update\<close> overwrites in
  place or appends, \<open>AList.delete\<close> removes).
\<close>

type_synonym token_map = "(string \<times> json) list"

text \<open>
  The object \<^verbatim>\<open>{ token, expiresAt }\<close> that \<^verbatim>\<open>setToken\<close> stores. Instants are
  milliseconds since the epoch, as \<^verbatim>\<open>Date.now()\<close> gives them.
\<close>

definition credential :: "string \<Rightarrow> int \<Rightarrow> json" where
  "credential tok expires = JObj [(''token'', JStr tok), (''expiresAt'', JNum (of_int expires))]"

text \<open>
  The text kept under a key of \<^verbatim>\<open>localStorage\<close>, represented by what
  \<^verbatim>\<open>JSON.parse\<close> makes of it: the empty text, a text that does not parse, or a text
  that parses to a value. \<^verbatim>\<open>JSON.stringify\<close> of an object gives a text that parses to
  that object.
\<close>

datatype blob = Empty_text | Malformed | Parsed json

text \<open>
  \<^verbatim>\<open>localStorage\<close>: the items, the browser's policy on writes (\<^verbatim>\<open>setItem\<close> throws
  when it refuses the write of a value under a key, as it does when the quota is
  exceeded), and what \<^verbatim>\<open>getItem\<close> and \<^verbatim>\<open>removeItem\<close> throw, if they do (as when
  the browser blocks access to the storage).
\<close>

record localStorage =
  items :: "string \<rightharpoonup> blob"
  quota_ok :: "string \<Rightarrow> blob \<Rightarrow> bool"
  getItem_throws :: "thrown option"
  removeItem_throws :: "thrown option"

definition getItem :: "localStorage \<Rightarrow> string \<Rightarrow> thrown + blob option" where
  "getItem ls k = (case getItem_throws ls of Some e \<Rightarrow> Inl e | None \<Rightarrow> Inr (items ls k))"

definition setItem :: "localStorage \<Rightarrow> string \<Rightarrow> blob \<Rightarrow> thrown + localStorage" where
  "setItem ls k v =
     (if quota_ok ls k v then Inr (ls\<lparr>items := (items ls)(k \<mapsto> v)\<rparr>)
      else Inl (Error ''QuotaExceededError''))"

definition removeItem :: "localStorage \<Rightarrow> string \<Rightarrow> thrown + localStorage" where
  "removeItem ls k =
     (case removeItem_throws ls of
        Some e \<Rightarrow> Inl e
      | None \<Rightarrow> Inr (ls\<lparr>items := (items ls)(k := None)\<rparr>))"

text \<open>\<^verbatim>\<open>JSON.parse\<close>: a syntax error (also on the empty text) or the value.\<close>

fun JSON_parse :: "blob \<Rightarrow> thrown + json" where
  "JSON_parse Empty_text = Inl (Error ''SyntaxError'')"
| "JSON_parse Malformed = Inl (Error ''SyntaxError'')"
| "JSON_parse (Parsed v) = Inr v"

text \<open>The decimal numeral of a number, for the index names of arrays and strings.\<close>

definition digit :: "nat \<Rightarrow> char" where
  "digit d = ''0123456789'' ! d"

function show_nat :: "nat \<Rightarrow> string" where
  "show_nat n = (if n < 10 then [digit n] else show_nat (n div 10) @ [digit (n mod 10)])"
  by pat_completeness auto
termination
  by (relation "measure (\<lambda>n. n)") auto

declare show_nat.simps [simp del]

definition indexed :: "json list \<Rightarrow> (string \<times> json) list" where
  "indexed xs = zip (map show_nat [0..<length xs]) xs"

text \<open>
  \<^verbatim>\<open>Object.entries\<close>: a \<^verbatim>\<open>TypeError\<close> on \<^verbatim>\<open>null\<close>, nothing for a boolean or a
  number, the indexed characters of a string, the indexed elements of an array, the
  properties of an object.
\<close>

fun Object_entries :: "json \<Rightarrow> thrown + (string \<times> json) list" where
  "Object_entries JNull = Inl (Error ''TypeError'')"
| "Object_entries (JBool b) = Inr []"
| "Object_entries (JNum n) = Inr []"
| "Object_entries (JStr s) = Inr (indexed (map (\<lambda>c. JStr [c]) s))"
| "Object_entries (JArr xs) = Inr (indexed xs)"
| "Object_entries (JObj props) = Inr props"

text \<open>Whether \<^verbatim>\<open>!value\<close> is false: it is true of \<^verbatim>\<open>null\<close>, \<^verbatim>\<open>false\<close>, 0 and the
  empty string only.\<close>

fun truthy :: "json \<Rightarrow> bool" where
  "truthy JNull = False"
| "truthy (JBool b) = b"
| "truthy (JNum n) = (n \<noteq> 0)"
| "truthy (JStr s) = (s \<noteq> [])"
| "truthy (JArr xs) = True"
| "truthy (JObj props) = True"

text \<open>
  \<^verbatim>\<open>value.token\<close> and \<^verbatim>\<open>value.expiresAt\<close>: the property of an object, and
  \<^verbatim>\<open>undefined\<close> (\<open>None\<close>) where there is none and on every other value, none of
  which has a property of either name.
\<close>

fun field :: "json \<Rightarrow> string \<Rightarrow> json option" where
  "field (JObj props) name = map_of props name"
| "field _ name = None"

text \<open>
  \<^verbatim>\<open>Date.now() >= tokenInfo.expiresAt\<close>. Against \<^verbatim>\<open>undefined\<close> the comparison is
  false; against a number it is the order of numbers; \<^verbatim>\<open>null\<close> counts as 0,
  \<^verbatim>\<open>false\<close> as 0 and \<^verbatim>\<open>true\<close> as 1. A string, an array or an object JavaScript
  first converts to a number, which may throw: that conversion is not code of this
  repository and is the parameter \<open>coerce\<close>.
\<close>

fun expired :: "(int \<Rightarrow> json \<Rightarrow> thrown + bool) \<Rightarrow> int \<Rightarrow> json option \<Rightarrow> thrown + bool" where
  "expired coerce now None = Inr False"
| "expired coerce now (Some (JNum expires)) = Inr (of_int now \<ge> expires)"
| "expired coerce now (Some JNull) = Inr (now \<ge> 0)"
| "expired coerce now (Some (JBool b)) = Inr (now \<ge> (if b then 1 else 0))"
| "expired coerce now (Some v) = coerce now v"

text \<open>What a function that returns \<^verbatim>\<open>value.token\<close> returns: \<open>None\<close> is \<^verbatim>\<open>null\<close> or
  \<^verbatim>\<open>undefined\<close>.\<close>

fun returned :: "json option \<Rightarrow> json option" where
  "returned (Some JNull) = None"
| "returned r = r"

text \<open>The token manager: its private map and the \<^verbatim>\<open>localStorage\<close> it persists to.\<close>

record TokenManager =
  tokens :: token_map
  storage :: localStorage

subsection \<open>Operations\<close>

text \<open>The body of the \<^verbatim>\<open>try\<close> block of \<^verbatim>\<open>loadTokens\<close>.\<close>

definition loadTokens_body :: "TokenManager \<Rightarrow> thrown + TokenManager" where
  "loadTokens_body tm =
     (case getItem (storage tm) ''fb_tokens'' of
        Inl e \<Rightarrow> Inl e
      | Inr None \<Rightarrow> Inr tm
      | Inr (Some savedTokens) \<Rightarrow>
          if savedTokens = Empty_text then Inr tm
          else (case JSON_parse savedTokens of
                  Inl e \<Rightarrow> Inl e
                | Inr parsed \<Rightarrow>
                    (case Object_entries parsed of
                       Inl e \<Rightarrow> Inl e
                     | Inr entries \<Rightarrow>
                         Inr (tm\<lparr>tokens :=
                                fold (\<lambda>(key, val) m. AList.update key val m) entries (tokens tm)\<rparr>))))"

text \<open>
  \<^verbatim>\<open>loadTokens\<close>: the \<^verbatim>\<open>catch\<close> logs and removes the stored item. The removal is
  not inside a \<^verbatim>\<open>try\<close>: what it throws leaves the function.
\<close>

definition loadTokens :: "TokenManager \<Rightarrow> thrown + TokenManager" where
  "loadTokens tm =
     (case loadTokens_body tm of
        Inr tm' \<Rightarrow> Inr tm'
      | Inl e \<Rightarrow>
          (case removeItem (storage tm) ''fb_tokens'' of
             Inl e' \<Rightarrow> Inl e'
           | Inr ls' \<Rightarrow> Inr (tm\<lparr>storage := ls'\<rparr>)))"

text \<open>The constructor: an empty map, then \<^verbatim>\<open>loadTokens\<close>.\<close>

definition new_TokenManager :: "localStorage \<Rightarrow> thrown + TokenManager" where
  "new_TokenManager ls = loadTokens \<lparr>tokens = [], storage = ls\<rparr>"

text \<open>
  \<^verbatim>\<open>saveTokens\<close>: the \<^verbatim>\<open>catch\<close> logs and returns. The object written has the
  entries of the map as its properties, here in the order of the map; the code looks
  entries up by name and nothing it returns depends on their order.
\<close>

definition saveTokens :: "TokenManager \<Rightarrow> thrown + TokenManager" where
  "saveTokens tm =
     (case setItem (storage tm) ''fb_tokens'' (Parsed (JObj (tokens tm))) of
        Inr ls' \<Rightarrow> Inr (tm\<lparr>storage := ls'\<rparr>)
      | Inl e \<Rightarrow> Inr tm)"

text \<open>\<^verbatim>\<open>setToken(pageId, token, expiresIn)\<close> at the instant \<open>now\<close>; \<open>expiresIn\<close> is in
  seconds.\<close>

definition setToken :: "int \<Rightarrow> string \<Rightarrow> string \<Rightarrow> int \<Rightarrow> TokenManager \<Rightarrow> thrown + TokenManager" where
  "setToken now pageId tok expiresIn tm =
     saveTokens (tm\<lparr>tokens :=
       AList.update pageId (credential tok (now + expiresIn * 1000)) (tokens tm)\<rparr>)"

text \<open>\<^verbatim>\<open>getToken(pageId)\<close> at the instant \<open>now\<close>: the result (\<open>None\<close> is \<^verbatim>\<open>null\<close> or
  \<^verbatim>\<open>undefined\<close>) and the manager afterwards.\<close>

definition getToken ::
  "(int \<Rightarrow> json \<Rightarrow> thrown + bool) \<Rightarrow> int \<Rightarrow> string \<Rightarrow> TokenManager
     \<Rightarrow> thrown + (json option \<times> TokenManager)" where
  "getToken coerce now pageId tm =
     (case map_of (tokens tm) pageId of
        None \<Rightarrow> Inr (None, tm)
      | Some tokenInfo \<Rightarrow>
          if \<not> truthy tokenInfo then Inr (None, tm)
          else (case expired coerce now (field tokenInfo ''expiresAt'') of
                  Inl e \<Rightarrow> Inl e
                | Inr is_expired \<Rightarrow>
                    if is_expired then
                      (case saveTokens (tm\<lparr>tokens := AList.delete pageId (tokens tm)\<rparr>) of
                         Inl e \<Rightarrow> Inl e
                       | Inr tm' \<Rightarrow> Inr (None, tm'))
                    else Inr (returned (field tokenInfo ''token''), tm)))"

text \<open>\<^verbatim>\<open>clearTokens\<close>: the map is cleared before the removal, which may throw.\<close>

definition clearTokens :: "TokenManager \<Rightarrow> TokenManager \<times> thrown option" where
  "clearTokens tm =
     (case removeItem (storage tm) ''fb_tokens'' of
        Inl e \<Rightarrow> (tm\<lparr>tokens := []\<rparr>, Some e)
      | Inr ls' \<Rightarrow> (tm\<lparr>tokens := [], storage := ls'\<rparr>, None))"

text \<open>What the persisted copy holds for a page: the property of the stored object.\<close>

definition persisted_entry :: "localStorage \<Rightarrow> string \<Rightarrow> json option" where
  "persisted_entry ls pageId =
     (case items ls ''fb_tokens'' of
        Some (Parsed (JObj doc)) \<Rightarrow> map_of doc pageId
      | _ \<Rightarrow> None)"

text \<open>A quota that accepts an object of at most \<open>n\<close> properties.\<close>

definition quota_entries :: "nat \<Rightarrow> string \<Rightarrow> blob \<Rightarrow> bool" where
  "quota_entries n k v = (case v of Parsed (JObj doc) \<Rightarrow> length doc \<le> n | _ \<Rightarrow> True)"

subsection \<open>Sample token stores\<close>

text \<open>Calls in sequence: a throw of the first ends the sequence.\<close>

definition and_then :: "thrown + 'a \<Rightarrow> ('a \<Rightarrow> thrown + 'b) \<Rightarrow> thrown + 'b" where
  "and_then r f = (case r of Inl e \<Rightarrow> Inl e | Inr x \<Rightarrow> f x)"

text \<open>An empty storage that can be read, whose quota accepts an object of at most \<open>n\<close>
  properties.\<close>

definition small_storage :: "nat \<Rightarrow> localStorage" where
  "small_storage n = \<lparr>items = Map.empty, quota_ok = quota_entries n,
                      getItem_throws = None, removeItem_throws = None\<rparr>"

text \<open>
  A manager built on a storage with room for one entry, then given tokens for the
  pages A (one second), B and C (a hundred seconds) at the instant 0. Only the first
  write fits.
\<close>

definition tm_abc :: "thrown + TokenManager" where
  "tm_abc =
     and_then (and_then (and_then (new_TokenManager (small_storage 1))
       (setToken 0 ''A'' ''ta'' 1)) (setToken 0 ''B'' ''tb'' 100)) (setToken 0 ''C'' ''tc'' 100)"

text \<open>A storage with an item, readable and with room for five entries.\<close>

definition storage_with :: "blob \<Rightarrow> localStorage" where
  "storage_with stored = \<lparr>items = [''fb_tokens'' \<mapsto> stored], quota_ok = quota_entries 5,
                        getItem_throws = None, removeItem_throws = None\<rparr>"

text \<open>Stored texts: one that does not parse, a saved token document, an object whose
  value is not a credential, and a JSON string.\<close>

definition corrupt_storage :: localStorage where
  "corrupt_storage = storage_with Malformed"

definition saved_storage :: localStorage where
  "saved_storage =
     storage_with (Parsed (JObj [(''A'', credential ''ta'' 1000), (''B'', credential ''tb'' 2000)]))"

definition misshapen_storage :: localStorage where
  "misshapen_storage = storage_with (Parsed (JObj [(''A'', JStr ''x'')]))"

definition string_storage :: localStorage where
  "string_storage = storage_with (Parsed (JStr ''ab''))"

text \<open>A conversion for the comparison that finds no value expired.\<close>

definition never_expired :: "int \<Rightarrow> json \<Rightarrow> thrown + bool" where
  "never_expired now v = Inr False"

section \<open>src/lib/facebook-automation.ts\<close>

subsection \<open>The retry wrapper\<close>

text \<open>\<^verbatim>\<open>CONFIG.retryAttempts\<close> and \<^verbatim>\<open>CONFIG.retryDelay\<close> (milliseconds).\<close>

definition retryAttempts :: int where
  "retryAttempts = 3"

definition retryDelay :: nat where
  "retryDelay = 5000"

text \<open>
  What a run of \<^verbatim>\<open>retry\<close> does, in order: an invocation of the operation with its
  outcome, or a sleep of so many milliseconds.
\<close>

datatype 'a retry_event = Attempt "thrown + 'a" | Sleep nat

text \<open>
  The operation \<open>fn\<close> acts on a world \<open>'w\<close> and either throws or returns. The loop
  \<^verbatim>\<open>for (let i = 0; i < attempts; i++)\<close> from the counter \<open>i\<close>: the outcome, the world
  afterwards and the events in order. After the loop the code throws
  \<^verbatim>\<open>new Error('Retry failed')\<close>.
\<close>

function retry_from ::
  "('w \<Rightarrow> (thrown + 'a) \<times> 'w) \<Rightarrow> int \<Rightarrow> int \<Rightarrow> 'w \<Rightarrow> (thrown + 'a) \<times> 'w \<times> 'a retry_event list" where
  "retry_from fn attempts i w =
     (if i < attempts then
        (case fn w of
           (Inr v, w') \<Rightarrow> (Inr v, w', [Attempt (Inr v)])
         | (Inl e, w') \<Rightarrow>
             if i = attempts - 1 then (Inl e, w', [Attempt (Inl e)])
             else (case retry_from fn attempts (i + 1) w' of
                     (r, w'', evs) \<Rightarrow> (r, w'', Attempt (Inl e) # Sleep retryDelay # evs)))
      else (Inl (Error ''Retry failed''), w, []))"
  by pat_completeness auto
termination
  by (relation "measure (\<lambda>(fn, attempts, i, w). nat (attempts - i))") auto

definition retry :: "('w \<Rightarrow> (thrown + 'a) \<times> 'w) \<Rightarrow> int \<Rightarrow> 'w \<Rightarrow> (thrown + 'a) \<times> 'w \<times> 'a retry_event list" where
  "retry fn attempts w = retry_from fn attempts 0 w"

text \<open>The invocations and the sleeps of a run.\<close>

fun invocations :: "'a retry_event list \<Rightarrow> (thrown + 'a) list" where
  "invocations [] = []"
| "invocations (Attempt r # evs) = r # invocations evs"
| "invocations (Sleep d # evs) = invocations evs"

fun sleeps :: "'a retry_event list \<Rightarrow> nat list" where
  "sleeps [] = []"
| "sleeps (Attempt r # evs) = sleeps evs"
| "sleeps (Sleep d # evs) = d # sleeps evs"

text \<open>The events of a run whose failed attempts threw \<open>errs\<close> and whose last attempt
  gave \<open>r\<close>: each failure is followed by one sleep of \<open>retryDelay\<close>, the last attempt by
  none.\<close>

fun attempts_then :: "thrown list \<Rightarrow> thrown + 'a \<Rightarrow> 'a retry_event list" where
  "attempts_then [] r = [Attempt r]"
| "attempts_then (e # errs) r = Attempt (Inl e) # Sleep retryDelay # attempts_then errs r"

text \<open>The outcomes of \<open>n\<close> successive invocations of the operation from a world, and the
  world after them.\<close>

fun run_op :: "('w \<Rightarrow> (thrown + 'a) \<times> 'w) \<Rightarrow> nat \<Rightarrow> 'w \<Rightarrow> (thrown + 'a) list \<times> 'w" where
  "run_op fn 0 w = ([], w)"
| "run_op fn (Suc n) w =
     (case fn w of (r, w') \<Rightarrow> (case run_op fn n w' of (rs, w'') \<Rightarrow> (r # rs, w'')))"

text \<open>An operation that fails twice and then succeeds; its world counts the calls.\<close>

definition flaky_twice :: "nat \<Rightarrow> (thrown + string) \<times> nat" where
  "flaky_twice n = (if n < 2 then Inl (Error ''flaky'') else Inr ''done'', Suc n)"

subsection \<open>The session, the file system and the surface\<close>

text \<open>
  The fields of the class (\<open>browser\<close> and \<open>page\<close> say whether the reference is set),
  the temporary directory (the file \<^verbatim>\<open>temp/image-<n>.jpg\<close> is the number \<open>n\<close>) and
  the actions performed so far.
\<close>

datatype io_event = Queried string | Fetched string | Wrote int | Attached int | Unlinked int | Closed

record automation =
  browser :: bool
  page :: bool
  isLoggedIn :: bool
  files :: "int set"
  io_log :: "io_event list"

text \<open>
  What the outside does when asked: \<^verbatim>\<open>page.$\<close> (an element or \<^verbatim>\<open>null\<close>),
  \<^verbatim>\<open>fetch\<close> with \<^verbatim>\<open>arrayBuffer\<close>, \<^verbatim>\<open>fs.writeFile\<close>, \<^verbatim>\<open>uploadFile\<close>,
  \<^verbatim>\<open>fs.unlink\<close>, \<^verbatim>\<open>browser.close\<close>, and \<^verbatim>\<open>Date.now()\<close>. Each may throw.
\<close>

record surface =
  page_query :: "string \<Rightarrow> thrown + bool"
  fetch :: "string \<Rightarrow> thrown + string"
  writeFile :: "int \<Rightarrow> thrown option"
  uploadFile :: "int \<Rightarrow> thrown option"
  unlink :: "int \<Rightarrow> thrown option"
  browser_close :: "thrown option"
  clock :: int

definition imageUpload :: string where
  \<open>imageUpload = ''input[type="file"]''\<close>

definition log_io :: "io_event \<Rightarrow> automation \<Rightarrow> automation" where
  "log_io ev a = a\<lparr>io_log := io_log a @ [ev]\<rparr>"

text \<open>The \<^verbatim>\<open>try\<close> block of \<^verbatim>\<open>uploadImage\<close>: the session afterwards and the outcome.\<close>

definition uploadImage_body :: "surface \<Rightarrow> string \<Rightarrow> automation \<Rightarrow> automation \<times> (thrown + unit)" where
  "uploadImage_body env imageUrl a =
     (let a1 = log_io (Queried imageUpload) a in
      case page_query env imageUpload of
        Inl e \<Rightarrow> (a1, Inl e)
      | Inr fileInput \<Rightarrow>
          if \<not> fileInput then (a1, Inl (Error ''Image upload input not found''))
          else (case fetch env imageUrl of
                  Inl e \<Rightarrow> (a1, Inl e)
                | Inr buffer \<Rightarrow>
                    (let a2 = log_io (Fetched imageUrl) a1; tempPath = clock env in
                     case writeFile env tempPath of
                       Some e \<Rightarrow> (a2, Inl e)
                     | None \<Rightarrow>
                         (let a3 = log_io (Wrote tempPath) (a2\<lparr>files := insert tempPath (files a2)\<rparr>) in
                          case uploadFile env tempPath of
                            Some e \<Rightarrow> (a3, Inl e)
                          | None \<Rightarrow>
                              (let a4 = log_io (Attached tempPath) a3 in
                               case unlink env tempPath of
                                 Some e \<Rightarrow> (a4, Inl e)
                               | None \<Rightarrow>
                                   (log_io (Unlinked tempPath) (a4\<lparr>files := files a4 - {tempPath}\<rparr>),
                                    Inr ()))))))"

text \<open>\<^verbatim>\<open>uploadImage\<close>: the guard on the page, then the block; the \<^verbatim>\<open>catch\<close> logs and
  rethrows.\<close>

definition uploadImage :: "surface \<Rightarrow> string \<Rightarrow> automation \<Rightarrow> automation \<times> (thrown + unit)" where
  "uploadImage env imageUrl a =
     (if \<not> page a then (a, Inl (Error ''Browser page not initialized''))
      else (case uploadImage_body env imageUrl a of
              (a', Inl e) \<Rightarrow> (a', Inl e)
            | (a', Inr u) \<Rightarrow> (a', Inr u)))"

text \<open>\<^verbatim>\<open>cleanup\<close>: closes the browser when there is one; the \<^verbatim>\<open>catch\<close> logs and
  rethrows.\<close>

definition cleanup :: "surface \<Rightarrow> automation \<Rightarrow> automation \<times> (thrown + unit)" where
  "cleanup env a =
     (if browser a then
        (case browser_close env of
           Some e \<Rightarrow> (a, Inl e)
         | None \<Rightarrow> (log_io Closed (a\<lparr>browser := False, page := False, isLoggedIn := False\<rparr>), Inr ()))
      else (a, Inr ()))"

text \<open>The actions of a complete upload, in order.\<close>

definition upload_steps :: "string \<Rightarrow> int \<Rightarrow> io_event list" where
  "upload_steps imageUrl tempPath =
     [Queried imageUpload, Fetched imageUrl, Wrote tempPath, Attached tempPath, Unlinked tempPath]"

text \<open>
  A session that is open and logged in, with an empty temporary directory; a surface
  where every call succeeds at the instant 42, and one where attaching the file throws.
\<close>

definition session0 :: automation where
  "session0 = \<lparr>browser = True, page = True, isLoggedIn = True, files = {}, io_log = []\<rparr>"

definition surface_ok :: surface where
  "surface_ok = \<lparr>page_query = (\<lambda>selector. Inr True), fetch = (\<lambda>url. Inr ''bytes''),
                 writeFile = (\<lambda>path. None), uploadFile = (\<lambda>path. None), unlink = (\<lambda>path. None),
                 browser_close = None, clock = 42\<rparr>"

definition surface_upload_fails :: surface where
  "surface_upload_fails = surface_ok\<lparr>uploadFile := (\<lambda>path. Some (Error ''upload failed''))\<rparr>"

section \<open>scripts/facebook-automation.js\<close>

text \<open>The fields \<^verbatim>\<open>retryAttempts\<close> and \<^verbatim>\<open>retryDelay\<close> the constructor sets.\<close>

definition script_retryAttempts :: int where
  "script_retryAttempts = 3"

definition script_retryDelay :: nat where
  "script_retryDelay = 5000"

datatype script_event =
    Goto string | RateLimitWait string | Dollar string | Click string
  | RetrySleep nat | VerifyAdminCalled

text \<open>The browser page as the script sees it: \<^verbatim>\<open>goto\<close>, \<^verbatim>\<open>$\<close> and \<^verbatim>\<open>click\<close>.\<close>

record browser_page =
  goto :: "string \<Rightarrow> thrown option"
  dollar :: "string \<Rightarrow> thrown + bool"
  click :: "string \<Rightarrow> thrown option"

type_synonym script_log = "script_event list"

definition adminSelectors :: "string list" where
  \<open>adminSelectors =
     [''[aria-label="Page Settings"]'',
      ''[data-testid="page_admin_panel"]'',
      ''[data-testid="page_composer_button"]'']\<close>

definition cookie_dialog :: string where
  \<open>cookie_dialog = ''[data-testid="cookie-policy-manage-dialog"]''\<close>

definition cookie_accept :: string where
  \<open>cookie_accept = ''[data-testid="cookie-policy-manage-dialog-accept-button"]''\<close>

definition page_not_found :: string where
  \<open>page_not_found = ''[data-testid="page_not_found_message"]''\<close>

text \<open>The loop over the selectors inside the \<^verbatim>\<open>try\<close> of \<^verbatim>\<open>verifyPageAdminAccess\<close>.\<close>

fun admin_loop :: "browser_page \<Rightarrow> string list \<Rightarrow> script_log \<Rightarrow> script_log \<times> (thrown + bool)" where
  "admin_loop pg [] lg = (lg, Inr False)"
| "admin_loop pg (selector # rest) lg =
     (case dollar pg selector of
        Inl e \<Rightarrow> (lg @ [Dollar selector], Inl e)
      | Inr element \<Rightarrow>
          if element then (lg @ [Dollar selector], Inr True)
          else admin_loop pg rest (lg @ [Dollar selector]))"

text \<open>
  The handlers of the script log \<^verbatim>\<open>error.message\<close>. Reading it throws a
  \<^verbatim>\<open>TypeError\<close> when the caught value is \<^verbatim>\<open>null\<close> or \<^verbatim>\<open>undefined\<close>, and then
  the handler ends there.
\<close>

fun read_message :: "thrown \<Rightarrow> thrown option" where
  "read_message Nullish = Some (Error ''TypeError'')"
| "read_message _ = None"

text \<open>\<^verbatim>\<open>verifyPageAdminAccess\<close>: the \<^verbatim>\<open>catch\<close> logs the message and returns
  \<^verbatim>\<open>false\<close>.\<close>

definition verifyPageAdminAccess :: "browser_page \<Rightarrow> script_log \<Rightarrow> script_log \<times> (thrown + bool)" where
  "verifyPageAdminAccess pg lg =
     (case admin_loop pg adminSelectors (lg @ [VerifyAdminCalled]) of
        (lg', Inl e) \<Rightarrow>
          (case read_message e of
             Some type_error \<Rightarrow> (lg', Inl type_error)
           | None \<Rightarrow> (lg', Inr False))
      | (lg', Inr b) \<Rightarrow> (lg', Inr b))"

text \<open>
  The script's \<^verbatim>\<open>retry\<close>, from the counter \<open>i\<close>. The \<^verbatim>\<open>catch\<close> rethrows on the
  last attempt; otherwise it logs the message and sleeps. When the loop ends without
  a return the function returns \<^verbatim>\<open>undefined\<close> (\<open>None\<close>).
\<close>

function script_retry_from ::
  "(script_log \<Rightarrow> script_log \<times> (thrown + 'a)) \<Rightarrow> int \<Rightarrow> script_log \<Rightarrow> script_log \<times> (thrown + 'a option)" where
  "script_retry_from fn i lg =
     (if i < script_retryAttempts then
        (case fn lg of
           (lg', Inr v) \<Rightarrow> (lg', Inr (Some v))
         | (lg', Inl e) \<Rightarrow>
             if i = script_retryAttempts - 1 then (lg', Inl e)
             else (case read_message e of
                     Some type_error \<Rightarrow> (lg', Inl type_error)
                   | None \<Rightarrow> script_retry_from fn (i + 1) (lg' @ [RetrySleep script_retryDelay])))
      else (lg, Inr None))"
  by pat_completeness auto
termination
  by (relation "measure (\<lambda>(fn, i, lg). nat (script_retryAttempts - i))") auto

definition script_retry ::
  "(script_log \<Rightarrow> script_log \<times> (thrown + 'a)) \<Rightarrow> script_log \<Rightarrow> script_log \<times> (thrown + 'a option)" where
  "script_retry fn lg = script_retry_from fn 0 lg"

text \<open>The steps of \<^verbatim>\<open>navigateToPage\<close> before the admin check: the navigation, the
  cookie dialog and the page-not-found message.\<close>

definition page_url :: "string \<Rightarrow> string" where
  "page_url pageId = ''https://www.facebook.com/'' @ pageId"

definition navigate_open :: "browser_page \<Rightarrow> string \<Rightarrow> script_log \<Rightarrow> script_log \<times> (thrown + unit)" where
  "navigate_open pg pageId lg =
     (let lg1 = lg @ [Goto (page_url pageId)] in
      case goto pg (page_url pageId) of
        Some e \<Rightarrow> (lg1, Inl e)
      | None \<Rightarrow>
          (let lg2 = lg1 @ [RateLimitWait ''navigation'', Dollar cookie_dialog] in
           case dollar pg cookie_dialog of
             Inl e \<Rightarrow> (lg2, Inl e)
           | Inr cookieConsent \<Rightarrow>
               (case (if cookieConsent then
                        (case click pg cookie_accept of
                           Some e \<Rightarrow> (lg2 @ [Click cookie_accept], Inl e)
                         | None \<Rightarrow> (lg2 @ [Click cookie_accept, RateLimitWait ''action''], Inr ()))
                      else (lg2, Inr ())) of
                  (lg3, Inl e) \<Rightarrow> (lg3, Inl e)
                | (lg3, Inr u) \<Rightarrow>
                    (case dollar pg page_not_found of
                       Inl e \<Rightarrow> (lg3 @ [Dollar page_not_found], Inl e)
                     | Inr pageAccessError \<Rightarrow>
                         if pageAccessError
                         then (lg3 @ [Dollar page_not_found],
                               Inl (Error ''Page access denied or page not found''))
                         else (lg3 @ [Dollar page_not_found], Inr ())))))"

text \<open>\<^verbatim>\<open>navigateToPage\<close>: the \<^verbatim>\<open>try\<close> block, and the \<^verbatim>\<open>catch\<close>, which logs the
  message and rethrows.\<close>

definition navigateToPage_body :: "browser_page \<Rightarrow> string \<Rightarrow> script_log \<Rightarrow> script_log \<times> (thrown + bool)" where
  "navigateToPage_body pg pageId lg =
     (case navigate_open pg pageId lg of
        (lg1, Inl e) \<Rightarrow> (lg1, Inl e)
      | (lg1, Inr u) \<Rightarrow>
          (case script_retry (verifyPageAdminAccess pg) lg1 of
             (lg2, Inl e) \<Rightarrow> (lg2, Inl e)
           | (lg2, Inr hasAdminAccess) \<Rightarrow>
               if hasAdminAccess = Some True then (lg2, Inr True)
               else (lg2, Inl (Error ''No admin access to the page''))))"

definition navigateToPage :: "browser_page \<Rightarrow> string \<Rightarrow> script_log \<Rightarrow> script_log \<times> (thrown + bool)" where
  "navigateToPage pg pageId lg =
     (case navigateToPage_body pg pageId lg of
        (lg', Inl e) \<Rightarrow>
          (case read_message e of
             Some type_error \<Rightarrow> (lg', Inl type_error)
           | None \<Rightarrow> (lg', Inl e))
      | (lg', Inr b) \<Rightarrow> (lg', Inr b))"

text \<open>The events of a log that belong to the retry budget.\<close>

fun verify_calls :: "script_log \<Rightarrow> nat" where
  "verify_calls [] = 0"
| "verify_calls (VerifyAdminCalled # evs) = Suc (verify_calls evs)"
| "verify_calls (_ # evs) = verify_calls evs"

fun retry_sleeps :: "script_log \<Rightarrow> nat list" where
  "retry_sleeps [] = []"
| "retry_sleeps (RetrySleep d # evs) = d # retry_sleeps evs"
| "retry_sleeps (_ # evs) = retry_sleeps evs"

text \<open>A page with no admin control, no cookie dialog and no page-not-found message,
  and one whose every query throws \<^verbatim>\<open>undefined\<close>.\<close>

definition visitor_page :: browser_page where
  "visitor_page = \<lparr>goto = (\<lambda>url. None), dollar = (\<lambda>selector. Inr False), click = (\<lambda>selector. None)\<rparr>"

definition broken_page :: browser_page where
  "broken_page = \<lparr>goto = (\<lambda>url. None), dollar = (\<lambda>selector. Inl Nullish), click = (\<lambda>selector. None)\<rparr>"

section \<open>src/lib/post-scheduler.ts\<close>

subsection \<open>The posts table\<close>

datatype post_status = Draft | Scheduled | Published | Failed

text \<open>
  A row of \<^verbatim>\<open>posts\<close> as the query returns it, with the fields the scheduler reads
  or writes. The column \<^verbatim>\<open>scheduled_for\<close> may be null; instants are milliseconds
  since the epoch. The pages of the post come joined as \<^verbatim>\<open>post_pages\<close> (their page
  ids here); the field \<^verbatim>\<open>selectedPages\<close> of the type \<^verbatim>\<open>Post\<close> is \<open>None\<close> when the
  row has no such property.
\<close>

record post =
  post_id :: string
  status :: post_status
  scheduled_for :: "int option"
  error :: "string option"
  updated_at :: int
  post_pages :: "string list"
  selectedPages :: "string list option"

text \<open>
  How an awaited write ends: the row is written, the call returns an error object
  (which the scheduler does not look at), or the promise rejects.
\<close>

datatype write_outcome = Applied | Refused | Rejected thrown

text \<open>
  The collaborators of the scheduler. \<^verbatim>\<open>facebookAuth.publishPost\<close> is called once
  for a post and either returns or throws; the class of \<^verbatim>\<open>facebookAuth\<close> in this
  repository does not define it, so it is a parameter. The others say how the
  \<^verbatim>\<open>select\<close>, an \<^verbatim>\<open>update\<close> of a post to a status and the \<^verbatim>\<open>insert\<close> of the
  analytics rows of a post end.
\<close>

record backend =
  publishPost :: "post \<Rightarrow> thrown option"
  select_outcome :: "thrown option"
  update_outcome :: "string \<Rightarrow> post_status \<Rightarrow> write_outcome"
  insert_outcome :: "string \<Rightarrow> write_outcome"

datatype sched_event =
    Selected "string list" | PublishCalled string | StatusWritten string post_status
  | TimerArmed nat

record world =
  posts :: "post list"
  post_analytics :: "(string \<times> string) list"
  trace :: "sched_event list"

definition checkInterval :: nat where
  "checkInterval = 5 * 60 * 1000"

subsection \<open>One tick\<close>

text \<open>\<^verbatim>\<open>.eq('status', 'scheduled').lte('scheduled_for', now)\<close>.\<close>

definition is_due :: "int \<Rightarrow> post \<Rightarrow> bool" where
  "is_due now p =
     (status p = Scheduled \<and> (case scheduled_for p of None \<Rightarrow> False | Some t \<Rightarrow> t \<le> now))"

definition select_due :: "int \<Rightarrow> post list \<Rightarrow> post list" where
  "select_due now ps = filter (is_due now) ps"

text \<open>\<^verbatim>\<open>error instanceof Error ? error.message : 'Unknown error'\<close>.\<close>

fun message :: "thrown \<Rightarrow> string" where
  "message (Error m) = m"
| "message NonError = ''Unknown error''"
| "message Nullish = ''Unknown error''"

text \<open>\<^verbatim>\<open>update({...}).eq('id', post.id)\<close>: the rows with that id get the new status and
  \<^verbatim>\<open>updated_at\<close>, and the error text when one is given.\<close>

definition write_row :: "post_status \<Rightarrow> string option \<Rightarrow> int \<Rightarrow> post \<Rightarrow> post" where
  "write_row st err now p =
     (case err of
        None \<Rightarrow> p\<lparr>status := st, updated_at := now\<rparr>
      | Some m \<Rightarrow> p\<lparr>status := st, error := Some m, updated_at := now\<rparr>)"

definition update_status ::
  "backend \<Rightarrow> int \<Rightarrow> string \<Rightarrow> post_status \<Rightarrow> string option \<Rightarrow> world \<Rightarrow> world \<times> thrown option" where
  "update_status env now pid st err w =
     (case update_outcome env pid st of
        Applied \<Rightarrow>
          (w\<lparr>posts := map (\<lambda>p. if post_id p = pid then write_row st err now p else p) (posts w),
             trace := trace w @ [StatusWritten pid st]\<rparr>, None)
      | Refused \<Rightarrow> (w, None)
      | Rejected e \<Rightarrow> (w, Some e))"

text \<open>\<^verbatim>\<open>initializeAnalytics\<close>: its own \<^verbatim>\<open>catch\<close> logs and returns, also when
  \<^verbatim>\<open>post.selectedPages\<close> is undefined and \<^verbatim>\<open>map\<close> on it throws.\<close>

definition initializeAnalytics :: "backend \<Rightarrow> post \<Rightarrow> world \<Rightarrow> world" where
  "initializeAnalytics env p w =
     (case selectedPages p of
        None \<Rightarrow> w
      | Some pages \<Rightarrow>
          (case insert_outcome env (post_id p) of
             Applied \<Rightarrow>
               w\<lparr>post_analytics := post_analytics w @ map (\<lambda>pg. (post_id p, pg)) pages\<rparr>
           | _ \<Rightarrow> w))"

text \<open>
  \<^verbatim>\<open>processScheduledPost\<close> in two halves, split at \<^verbatim>\<open>await facebookAuth.publishPost(post)\<close>:
  the call, and what follows once the call has settled. The \<^verbatim>\<open>catch\<close> writes the
  status \<^verbatim>\<open>failed\<close>; what that write throws leaves the function.
\<close>

definition begin_publish :: "post \<Rightarrow> world \<Rightarrow> world" where
  "begin_publish p w = w\<lparr>trace := trace w @ [PublishCalled (post_id p)]\<rparr>"

definition on_failure :: "backend \<Rightarrow> int \<Rightarrow> post \<Rightarrow> thrown \<Rightarrow> world \<Rightarrow> world \<times> thrown option" where
  "on_failure env now p e w = update_status env now (post_id p) Failed (Some (message e)) w"

definition finish_publish :: "backend \<Rightarrow> int \<Rightarrow> post \<Rightarrow> world \<Rightarrow> world \<times> thrown option" where
  "finish_publish env now p w =
     (case publishPost env p of
        Some e \<Rightarrow> on_failure env now p e w
      | None \<Rightarrow>
          (case update_status env now (post_id p) Published None w of
             (w1, Some e) \<Rightarrow> on_failure env now p e w1
           | (w1, None) \<Rightarrow> (initializeAnalytics env p w1, None)))"

definition processScheduledPost :: "backend \<Rightarrow> int \<Rightarrow> post \<Rightarrow> world \<Rightarrow> world \<times> thrown option" where
  "processScheduledPost env now p w = finish_publish env now p (begin_publish p w)"

text \<open>\<^verbatim>\<open>for (const post of posts) await this.processScheduledPost(post)\<close>: a throw ends
  the loop.\<close>

fun process_posts :: "backend \<Rightarrow> int \<Rightarrow> post list \<Rightarrow> world \<Rightarrow> world \<times> thrown option" where
  "process_posts env now [] w = (w, None)"
| "process_posts env now (p # ps) w =
     (case processScheduledPost env now p w of
        (w', Some e) \<Rightarrow> (w', Some e)
      | (w', None) \<Rightarrow> process_posts env now ps w')"

text \<open>\<^verbatim>\<open>checkScheduledPosts\<close>: the \<^verbatim>\<open>catch\<close> around the whole body logs and returns.\<close>

definition checkScheduledPosts :: "backend \<Rightarrow> int \<Rightarrow> world \<Rightarrow> world \<times> thrown option" where
  "checkScheduledPosts env now w =
     (case select_outcome env of
        Some e \<Rightarrow> (w, None)
      | None \<Rightarrow>
          (let due = select_due now (posts w);
               w0 = w\<lparr>trace := trace w @ [Selected (map post_id due)]\<rparr>
           in case process_posts env now due w0 of
                (w', Some e) \<Rightarrow> (w', None)
              | (w', None) \<Rightarrow> (w', None)))"

text \<open>\<^verbatim>\<open>start\<close>: the first check is awaited, then the interval timer is set.\<close>

definition start :: "backend \<Rightarrow> int \<Rightarrow> world \<Rightarrow> world \<times> thrown option" where
  "start env now w =
     (case checkScheduledPosts env now w of
        (w', Some e) \<Rightarrow> (w', Some e)
      | (w', None) \<Rightarrow> (w'\<lparr>trace := trace w' @ [TimerArmed checkInterval]\<rparr>, None))"

text \<open>The calls of \<^verbatim>\<open>publishPost\<close> in a trace, in order.\<close>

fun publish_calls :: "sched_event list \<Rightarrow> string list" where
  "publish_calls [] = []"
| "publish_calls (PublishCalled pid # evs) = pid # publish_calls evs"
| "publish_calls (_ # evs) = publish_calls evs"

text \<open>The settings of the interval timer in a trace, in order.\<close>

fun arms :: "sched_event list \<Rightarrow> nat list" where
  "arms [] = []"
| "arms (TimerArmed ms # evs) = ms # arms evs"
| "arms (_ # evs) = arms evs"

text \<open>The status of the post with an id in a table.\<close>

definition status_of :: "string \<Rightarrow> post list \<Rightarrow> post_status option" where
  "status_of pid ps = map_option status (find (\<lambda>p. post_id p = pid) ps)"

text \<open>The row of the post with an id in a table, and its error text.\<close>

definition row_of :: "string \<Rightarrow> post list \<Rightarrow> post option" where
  "row_of pid ps = find (\<lambda>p. post_id p = pid) ps"

definition error_of :: "string \<Rightarrow> post list \<Rightarrow> string option option" where
  "error_of pid ps = map_option error (row_of pid ps)"

text \<open>
  What reaches the \<^verbatim>\<open>catch\<close> of \<^verbatim>\<open>processScheduledPost\<close> for a post: what
  \<^verbatim>\<open>publishPost\<close> throws, or else what the write of \<open>published\<close> throws.
\<close>

definition caught :: "backend \<Rightarrow> post \<Rightarrow> thrown option" where
  "caught env p =
     (case publishPost env p of
        Some e \<Rightarrow> Some e
      | None \<Rightarrow> (case update_outcome env (post_id p) Published of Rejected e \<Rightarrow> Some e | _ \<Rightarrow> None))"

subsection \<open>Ticks that overlap\<close>

text \<open>
  The timer callback calls \<^verbatim>\<open>checkScheduledPosts\<close> without awaiting it, and nothing
  records that a check is under way, so a check can start while an earlier one is
  suspended at the \<^verbatim>\<open>await\<close> of \<^verbatim>\<open>publishPost\<close>. A check under way is the posts it
  still has to process and the post whose publish it awaits.
\<close>

record tick =
  queue :: "post list"
  awaiting :: "post option"

record runtime =
  shared :: world
  ticks :: "tick list"

text \<open>
  What the event loop runs next: the timer fires at an instant (the query and its
  answer), the check number \<open>k\<close> calls \<^verbatim>\<open>publishPost\<close> for its next post, or the
  publish the check \<open>k\<close> awaits settles at an instant (the rest of
  \<^verbatim>\<open>processScheduledPost\<close>; a throw ends that check).
\<close>

datatype loop_step = TimerFires int | Dispatch nat | Settle nat int

fun step :: "backend \<Rightarrow> loop_step \<Rightarrow> runtime \<Rightarrow> runtime option" where
  "step env (TimerFires now) rt =
     (case select_outcome env of
        Some e \<Rightarrow> Some rt
      | None \<Rightarrow>
          (let due = select_due now (posts (shared rt)) in
           Some (rt\<lparr>shared := (shared rt)\<lparr>trace := trace (shared rt) @ [Selected (map post_id due)]\<rparr>,
                    ticks := ticks rt @ [\<lparr>queue = due, awaiting = None\<rparr>]\<rparr>)))"
| "step env (Dispatch k) rt =
     (if k < length (ticks rt) then
        (case (awaiting (ticks rt ! k), queue (ticks rt ! k)) of
           (None, p # ps) \<Rightarrow>
             Some (rt\<lparr>shared := begin_publish p (shared rt),
                      ticks := (ticks rt)[k := \<lparr>queue = ps, awaiting = Some p\<rparr>]\<rparr>)
         | _ \<Rightarrow> None)
      else None)"
| "step env (Settle k now) rt =
     (if k < length (ticks rt) then
        (case awaiting (ticks rt ! k) of
           Some p \<Rightarrow>
             (case finish_publish env now p (shared rt) of
                (w', None) \<Rightarrow>
                  Some (rt\<lparr>shared := w', ticks := (ticks rt)[k := (ticks rt ! k)\<lparr>awaiting := None\<rparr>]\<rparr>)
              | (w', Some e) \<Rightarrow>
                  Some (rt\<lparr>shared := w', ticks := (ticks rt)[k := \<lparr>queue = [], awaiting = None\<rparr>]\<rparr>))
         | None \<Rightarrow> None)
      else None)"

fun run :: "backend \<Rightarrow> loop_step list \<Rightarrow> runtime \<Rightarrow> runtime option" where
  "run env [] rt = Some rt"
| "run env (s # ss) rt = (case step env s rt of None \<Rightarrow> None | Some rt' \<Rightarrow> run env ss rt')"

text \<open>The trace after a run.\<close>

definition observed :: "runtime option \<Rightarrow> sched_event list option" where
  "observed r = map_option (\<lambda>rt. trace (shared rt)) r"

subsection \<open>The rollup the specification describes\<close>

text \<open>
  The outcome of one (post, page) target and the post status the specification derives
  from the outcomes of all targets: \<open>published\<close> when all are \<open>Published\<close>, \<open>failed\<close>
  when one is a terminal failure, else still \<open>scheduled\<close>. The scheduler has no such
  outcomes; this definition follows the specification's words, for comparison.
\<close>

datatype PublishOutcome = PublishedOk | RetryableFailure string | TerminalFailure string

fun is_terminal :: "PublishOutcome \<Rightarrow> bool" where
  "is_terminal (TerminalFailure r) = True"
| "is_terminal _ = False"

definition rollup_spec :: "PublishOutcome list \<Rightarrow> post_status" where
  "rollup_spec outcomes =
     (if list_all (\<lambda>out. out = PublishedOk) outcomes then Published
      else if list_ex is_terminal outcomes then Failed
      else Scheduled)"

subsection \<open>Sample data\<close>

definition post_a :: post where
  "post_a = \<lparr>post_id = ''a'', status = Scheduled, scheduled_for = Some 1000, error = None,
            updated_at = 0, post_pages = [''A'', ''B''], selectedPages = None\<rparr>"

definition post_b :: post where
  "post_b = \<lparr>post_id = ''b'', status = Scheduled, scheduled_for = Some 2000, error = None,
            updated_at = 0, post_pages = [''A''], selectedPages = None\<rparr>"

definition post_c :: post where
  "post_c = \<lparr>post_id = ''c'', status = Draft, scheduled_for = Some 500, error = None,
            updated_at = 0, post_pages = [''A''], selectedPages = None\<rparr>"

definition world0 :: world where
  "world0 = \<lparr>posts = [post_a, post_b, post_c], post_analytics = [], trace = []\<rparr>"

text \<open>The scheduler before any check has started.\<close>

definition runtime0 :: runtime where
  "runtime0 = \<lparr>shared = world0, ticks = []\<rparr>"

text \<open>A backend where every call succeeds, and variants where the publish of a post
  throws and where the write of the status \<open>failed\<close> is rejected.\<close>

definition backend_ok :: backend where
  "backend_ok = \<lparr>publishPost = (\<lambda>p. None), select_outcome = None,
                 update_outcome = (\<lambda>pid st. Applied), insert_outcome = (\<lambda>pid. Applied)\<rparr>"

definition backend_timeout :: backend where
  "backend_timeout = backend_ok\<lparr>publishPost := (\<lambda>p. Some (Error ''timeout''))\<rparr>"

definition backend_down :: backend where
  "backend_down = backend_timeout\<lparr>update_outcome :=
     (\<lambda>pid st. if st = Failed then Rejected (Error ''fetch failed'') else Applied)\<rparr>"

section \<open>Properties of the token manager\<close>

lemma saveTokens_returns: "\<exists>tm'. saveTokens tm = Inr tm' \<and> tokens tm' = tokens tm"
  by (simp add: saveTokens_def split: sum.split)

lemma fold_update_map_of:
  "distinct (map fst entries) \<Longrightarrow>
   map_of (fold (\<lambda>(key, val) m. AList.update key val m) entries acc) k =
     (case map_of entries k of Some v \<Rightarrow> Some v | None \<Rightarrow> map_of acc k)"
proof (induction entries arbitrary: acc)
  case Nil
  then show ?case by simp
next
  case (Cons e es)
  obtain key val where e: "e = (key, val)" by (cases e)
  from Cons.prems have d: "distinct (map fst es)" and nk: "key \<notin> fst ` set es"
    by (simp_all add: e)
  have none: "map_of es key = None"
    using nk by (simp add: map_of_eq_None_iff)
  show ?case
    using Cons.IH [OF d, of "AList.update key val acc"] none
    by (auto simp: e update_conv' split: option.splits)
qed

lemma fold_update_fresh:
  "distinct (map fst entries) \<Longrightarrow>
   map_of (fold (\<lambda>(key, val) m. AList.update key val m) entries []) = map_of entries"
proof
  fix k
  assume "distinct (map fst entries)"
  then show "map_of (fold (\<lambda>(key, val) m. AList.update key val m) entries []) k = map_of entries k"
    by (simp add: fold_update_map_of split: option.split)
qed

lemma field_truthy: "field v name = Some x \<Longrightarrow> truthy v"
  by (cases v) simp_all

lemma returned_Some: "returned r = Some x \<Longrightarrow> r = Some x"
  by (cases r rule: returned.cases) simp_all

lemma getToken_expired:
  assumes "map_of (tokens tm) pageId = Some v"
    and "field v ''expiresAt'' = Some (JNum expires)" and "expires \<le> of_int now"
  shows "\<exists>tm'. getToken coerce now pageId tm = Inr (None, tm')
           \<and> tokens tm' = AList.delete pageId (tokens tm)
           \<and> map_of (tokens tm') pageId = None
           \<and> (if quota_ok (storage tm) ''fb_tokens'' (Parsed (JObj (tokens tm')))
              then persisted_entry (storage tm') pageId = None
              else storage tm' = storage tm)"
proof -
  have t: "truthy v" using assms(2) by (rule field_truthy)
  show ?thesis
  proof (cases "quota_ok (storage tm) ''fb_tokens'' (Parsed (JObj (AList.delete pageId (tokens tm))))")
    case True
    then show ?thesis
      using assms t
      by (simp add: getToken_def saveTokens_def setItem_def persisted_entry_def delete_conv')
  next
    case False
    then show ?thesis
      using assms t
      by (simp add: getToken_def saveTokens_def setItem_def delete_conv')
  qed
qed

lemma getToken_Some:
  assumes "getToken coerce now pageId tm = Inr (Some r, tm')"
  shows "tm' = tm \<and> (\<exists>v. map_of (tokens tm) pageId = Some v \<and> field v ''token'' = Some r
            \<and> (\<forall>expires. field v ''expiresAt'' = Some (JNum expires) \<longrightarrow> of_int now < expires))"
proof (cases "map_of (tokens tm) pageId")
  case None
  with assms show ?thesis by (simp add: getToken_def)
next
  case (Some v)
  show ?thesis
  proof (cases "truthy v")
    case False
    with Some assms show ?thesis by (simp add: getToken_def)
  next
    case True
    show ?thesis
    proof (cases "expired coerce now (field v ''expiresAt'')")
      case (Inl e)
      with Some True assms show ?thesis by (simp add: getToken_def)
    next
      case (Inr is_expired)
      show ?thesis
      proof (cases is_expired)
        case True
        with Some \<open>truthy v\<close> Inr assms show ?thesis
          using saveTokens_returns [of "tm\<lparr>tokens := AList.delete pageId (tokens tm)\<rparr>"]
          by (auto simp: getToken_def)
      next
        case False
        with Some \<open>truthy v\<close> Inr assms
        have r: "returned (field v ''token'') = Some r" and e: "tm' = tm"
          by (simp_all add: getToken_def)
        have x: "\<forall>expires. field v ''expiresAt'' = Some (JNum expires) \<longrightarrow> of_int now < expires"
          using Inr False by auto
        from returned_Some [OF r] e x Some show ?thesis by simp
      qed
    qed
  qed
qed

lemma setToken_result:
  "\<exists>tm'. setToken now pageId tok ttl tm = Inr tm'
     \<and> tokens tm' = AList.update pageId (credential tok (now + ttl * 1000)) (tokens tm)
     \<and> (if quota_ok (storage tm) ''fb_tokens'' (Parsed (JObj (tokens tm')))
        then items (storage tm') ''fb_tokens'' = Some (Parsed (JObj (tokens tm')))
        else storage tm' = storage tm)"
  by (simp add: setToken_def saveTokens_def setItem_def)

text \<open>
  Claim C2, as the code has it. \<^verbatim>\<open>getToken\<close> returns a token only from an entry
  whose expiry instant, when it has one, is after \<open>now\<close>. A token set with a time to live
  and read at or after its expiry instant is absent, and the read removes the entry from
  the map; so does the read of any entry whose expiry instant is at or before \<open>now\<close>. The
  read then saves the map: when the storage accepts the write, the persisted copy has no
  entry for the page either; when it refuses, \<^verbatim>\<open>saveTokens\<close> swallows the error and
  the storage is as it was.
\<close>

theorem getToken_expiry:
  "(getToken coerce now pageId tm = Inr (Some r, tm') \<longrightarrow>
      (\<exists>v. map_of (tokens tm) pageId = Some v \<and> field v ''token'' = Some r
         \<and> (\<forall>expires. field v ''expiresAt'' = Some (JNum expires) \<longrightarrow> of_int now < expires)))
   \<and> (setToken now pageId tok ttl tm = Inr tm1 \<and> now + ttl * 1000 \<le> later \<longrightarrow>
        (\<exists>tm2. getToken coerce later pageId tm1 = Inr (None, tm2)
           \<and> map_of (tokens tm2) pageId = None
           \<and> (if quota_ok (storage tm1) ''fb_tokens'' (Parsed (JObj (tokens tm2)))
              then persisted_entry (storage tm2) pageId = None
              else storage tm2 = storage tm1)))
   \<and> (map_of (tokens tm) pageId = Some v \<and> field v ''expiresAt'' = Some (JNum expires)
        \<and> expires \<le> of_int now \<longrightarrow>
        (\<exists>tm2. getToken coerce now pageId tm = Inr (None, tm2)
           \<and> map_of (tokens tm2) pageId = None
           \<and> (if quota_ok (storage tm) ''fb_tokens'' (Parsed (JObj (tokens tm2)))
              then persisted_entry (storage tm2) pageId = None
              else storage tm2 = storage tm)))"
proof (intro conjI impI)
  assume "getToken coerce now pageId tm = Inr (Some r, tm')"
  from getToken_Some [OF this]
  show "\<exists>v. map_of (tokens tm) pageId = Some v \<and> field v ''token'' = Some r
         \<and> (\<forall>expires. field v ''expiresAt'' = Some (JNum expires) \<longrightarrow> of_int now < expires)"
    by simp
next
  assume a: "setToken now pageId tok ttl tm = Inr tm1 \<and> now + ttl * 1000 \<le> later"
  from setToken_result [of now pageId tok ttl tm] a
  have "tokens tm1 = AList.update pageId (credential tok (now + ttl * 1000)) (tokens tm)"
    by auto
  then have m: "map_of (tokens tm1) pageId = Some (credential tok (now + ttl * 1000))"
    by (simp add: update_conv')
  have f: "field (credential tok (now + ttl * 1000)) ''expiresAt'' = Some (JNum (of_int (now + ttl * 1000)))"
    by (simp add: credential_def)
  from a have l: "(of_int (now + ttl * 1000) :: rat) \<le> of_int later" by simp
  from getToken_expired [OF m f l, of coerce]
  show "\<exists>tm2. getToken coerce later pageId tm1 = Inr (None, tm2)
           \<and> map_of (tokens tm2) pageId = None
           \<and> (if quota_ok (storage tm1) ''fb_tokens'' (Parsed (JObj (tokens tm2)))
              then persisted_entry (storage tm2) pageId = None
              else storage tm2 = storage tm1)"
    by auto
next
  assume a: "map_of (tokens tm) pageId = Some v \<and> field v ''expiresAt'' = Some (JNum expires)
        \<and> expires \<le> of_int now"
  then have 1: "map_of (tokens tm) pageId = Some v"
    and 2: "field v ''expiresAt'' = Some (JNum expires)" and 3: "expires \<le> of_int now"
    by simp_all
  from getToken_expired [OF 1 2 3, of coerce]
  show "\<exists>tm2. getToken coerce now pageId tm = Inr (None, tm2)
           \<and> map_of (tokens tm2) pageId = None
           \<and> (if quota_ok (storage tm) ''fb_tokens'' (Parsed (JObj (tokens tm2)))
              then persisted_entry (storage tm2) pageId = None
              else storage tm2 = storage tm)"
    by auto
qed

lemma tm_abc_value:
  "tm_abc = Inr \<lparr>tokens = [(''A'', credential ''ta'' 1000),
                          (''B'', credential ''tb'' 100000),
                          (''C'', credential ''tc'' 100000)],
                storage = \<lparr>items = [''fb_tokens'' \<mapsto> Parsed (JObj [(''A'', credential ''ta'' 1000)])],
                           quota_ok = quota_entries 1,
                           getItem_throws = None, removeItem_throws = None\<rparr>\<rparr>"
  by (simp add: tm_abc_def and_then_def new_TokenManager_def loadTokens_def loadTokens_body_def
      getItem_def small_storage_def setToken_def saveTokens_def setItem_def quota_entries_def)

text \<open>
  Claim C2 as stated says the expired entry is also purged from the persisted copy on that
  access. On a storage with room for one entry, after tokens for A, B and C were set, the
  read of the expired A removes it from the map, the save of the two remaining entries is
  refused, and the persisted copy still holds A.
\<close>

theorem purge_counterexample:
  "and_then tm_abc (getToken never_expired 2000 ''A'') =
     Inr (None, \<lparr>tokens = [(''B'', credential ''tb'' 100000), (''C'', credential ''tc'' 100000)],
                storage = \<lparr>items = [''fb_tokens'' \<mapsto> Parsed (JObj [(''A'', credential ''ta'' 1000)])],
                           quota_ok = quota_entries 1,
                           getItem_throws = None, removeItem_throws = None\<rparr>\<rparr>)
   \<and> persisted_entry \<lparr>items = [''fb_tokens'' \<mapsto> Parsed (JObj [(''A'', credential ''ta'' 1000)])],
                           quota_ok = quota_entries 1,
                           getItem_throws = None, removeItem_throws = None\<rparr> ''A''
       = Some (credential ''ta'' 1000)"
  by (simp add: tm_abc_value and_then_def getToken_def saveTokens_def setItem_def quota_entries_def
      persisted_entry_def credential_def)

theorem getToken_expiry_witness:
  "setToken 0 ''A'' ''ta'' 1 \<lparr>tokens = [], storage = small_storage 1\<rparr>
     = Inr \<lparr>tokens = [(''A'', credential ''ta'' 1000)],
            storage = (small_storage 1)\<lparr>items := [''fb_tokens'' \<mapsto> Parsed (JObj [(''A'', credential ''ta'' 1000)])]\<rparr>\<rparr>
   \<and> (0::int) + 1 * 1000 \<le> 1000
   \<and> (\<exists>tm2. getToken never_expired 1000 ''A'' \<lparr>tokens = [(''A'', credential ''ta'' 1000)],
            storage = (small_storage 1)\<lparr>items := [''fb_tokens'' \<mapsto> Parsed (JObj [(''A'', credential ''ta'' 1000)])]\<rparr>\<rparr>
          = Inr (None, tm2)
        \<and> map_of (tokens tm2) ''A'' = None
        \<and> persisted_entry (storage tm2) ''A'' = None)"
proof -
  let ?tm0 = "\<lparr>tokens = [], storage = small_storage 1\<rparr>"
  let ?tm1 = "\<lparr>tokens = [(''A'', credential ''ta'' 1000)],
            storage = (small_storage 1)\<lparr>items := [''fb_tokens'' \<mapsto> Parsed (JObj [(''A'', credential ''ta'' 1000)])]\<rparr>\<rparr>"
  have s: "setToken 0 ''A'' ''ta'' 1 ?tm0 = Inr ?tm1"
    by (simp add: setToken_def saveTokens_def setItem_def small_storage_def quota_entries_def)
  from getToken_expiry [of never_expired 0 "''A''" ?tm0 _ ?tm0 "''ta''" 1 ?tm1 1000] s
  have "\<exists>tm2. getToken never_expired 1000 ''A'' ?tm1 = Inr (None, tm2)
           \<and> map_of (tokens tm2) ''A'' = None
           \<and> (if quota_ok (storage ?tm1) ''fb_tokens'' (Parsed (JObj (tokens tm2)))
              then persisted_entry (storage tm2) ''A'' = None
              else storage tm2 = storage ?tm1)"
    by simp
  then obtain tm2 where g: "getToken never_expired 1000 ''A'' ?tm1 = Inr (None, tm2)"
    and m: "map_of (tokens tm2) ''A'' = None"
    and p: "if quota_ok (storage ?tm1) ''fb_tokens'' (Parsed (JObj (tokens tm2)))
              then persisted_entry (storage tm2) ''A'' = None
              else storage tm2 = storage ?tm1"
    by (elim exE conjE)
  from g have "tokens tm2 = []"
    by (auto simp: getToken_def saveTokens_def setItem_def quota_entries_def small_storage_def
        credential_def)
  with p have "persisted_entry (storage tm2) ''A'' = None"
    by (simp add: quota_entries_def small_storage_def)
  with s g m show ?thesis by simp
qed

text \<open>
  Claim C10. \<^verbatim>\<open>setToken\<close> never throws, whatever the storage does: it returns, the
  map holds the credential, a storage that refuses the write is left as it was, and
  \<^verbatim>\<open>getToken\<close> at any instant before the expiry returns the token.
\<close>

theorem setToken_swallows_persist_failure:
  "\<exists>tm'. setToken now pageId tok ttl tm = Inr tm'
     \<and> map_of (tokens tm') pageId = Some (credential tok (now + ttl * 1000))
     \<and> (\<not> quota_ok (storage tm) ''fb_tokens'' (Parsed (JObj (tokens tm'))) \<longrightarrow> storage tm' = storage tm)
     \<and> (\<forall>later. later < now + ttl * 1000 \<longrightarrow>
           getToken coerce later pageId tm' = Inr (Some (JStr tok), tm'))"
proof -
  from setToken_result [of now pageId tok ttl tm]
  obtain tm' where s: "setToken now pageId tok ttl tm = Inr tm'"
    and t: "tokens tm' = AList.update pageId (credential tok (now + ttl * 1000)) (tokens tm)"
    and q: "if quota_ok (storage tm) ''fb_tokens'' (Parsed (JObj (tokens tm')))
        then items (storage tm') ''fb_tokens'' = Some (Parsed (JObj (tokens tm')))
        else storage tm' = storage tm"
    by (elim exE conjE)
  have m: "map_of (tokens tm') pageId = Some (credential tok (now + ttl * 1000))"
    by (simp add: t update_conv')
  have g: "\<forall>later. later < now + ttl * 1000 \<longrightarrow>
      getToken coerce later pageId tm' = Inr (Some (JStr tok), tm')"
    by (simp add: getToken_def m credential_def)
  from s m q g show ?thesis by auto
qed

theorem setToken_swallows_persist_failure_witness:
  "\<not> quota_ok (small_storage 0) ''fb_tokens'' (Parsed (JObj [(''A'', credential ''ta'' 60000)]))
   \<and> setToken 0 ''A'' ''ta'' 60 \<lparr>tokens = [], storage = small_storage 0\<rparr>
       = Inr \<lparr>tokens = [(''A'', credential ''ta'' 60000)], storage = small_storage 0\<rparr>
   \<and> (59999::int) < 0 + 60 * 1000
   \<and> getToken never_expired 59999 ''A'' \<lparr>tokens = [(''A'', credential ''ta'' 60000)], storage = small_storage 0\<rparr>
       = Inr (Some (JStr ''ta''), \<lparr>tokens = [(''A'', credential ''ta'' 60000)], storage = small_storage 0\<rparr>)"
proof -
  let ?tm0 = "\<lparr>tokens = [], storage = small_storage 0\<rparr>"
  let ?tm1 = "\<lparr>tokens = [(''A'', credential ''ta'' 60000)], storage = small_storage 0\<rparr>"
  have s: "setToken 0 ''A'' ''ta'' 60 ?tm0 = Inr ?tm1"
    by (simp add: setToken_def saveTokens_def setItem_def small_storage_def quota_entries_def)
  have n: "\<not> quota_ok (small_storage 0) ''fb_tokens'' (Parsed (JObj [(''A'', credential ''ta'' 60000)]))"
    by (simp add: small_storage_def quota_entries_def)
  from setToken_swallows_persist_failure [of 0 "''A''" "''ta''" 60 ?tm0 never_expired] s
  have "\<forall>later. later < 0 + 60 * 1000 \<longrightarrow>
      getToken never_expired later ''A'' ?tm1 = Inr (Some (JStr ''ta''), ?tm1)"
    by simp
  then have "getToken never_expired 59999 ''A'' ?tm1 = Inr (Some (JStr ''ta''), ?tm1)"
    by simp
  with s n show ?thesis by simp
qed

lemma loadTokens_discards:
  assumes "removeItem_throws ls = None"
    and "loadTokens_body \<lparr>tokens = [], storage = ls\<rparr> = Inl e"
  shows "new_TokenManager ls =
           Inr \<lparr>tokens = [], storage = ls\<lparr>items := (items ls)(''fb_tokens'' := None)\<rparr>\<rparr>"
  using assms by (simp add: new_TokenManager_def loadTokens_def removeItem_def)

lemma loadTokens_restores:
  assumes "getItem_throws ls = None" and "items ls ''fb_tokens'' = Some (Parsed v)"
    and "Object_entries v = Inr entries"
  shows "new_TokenManager ls =
           Inr \<lparr>tokens = fold (\<lambda>(key, val) m. AList.update key val m) entries [], storage = ls\<rparr>"
  using assms by (simp add: new_TokenManager_def loadTokens_def loadTokens_body_def getItem_def)

text \<open>The removal of the item in the \<^verbatim>\<open>catch\<close> is not guarded: when the read of the
  item throws and the removal throws too, the constructor throws.\<close>

lemma loadTokens_removal_throws:
  assumes "getItem_throws ls = Some e" and "removeItem_throws ls = Some e'"
  shows "new_TokenManager ls = Inl e'"
  using assms
  by (simp add: new_TokenManager_def loadTokens_def loadTokens_body_def getItem_def removeItem_def)

text \<open>
  Claim C7, as the code has it, where the removal of the item does not throw. When the
  stored item cannot be read, or its text does not parse or parses to \<^verbatim>\<open>null\<close>, the
  constructor returns with an empty map and the item removed. When there is no item or
  its text is empty, the map is empty and the storage untouched. A text that parses to
  an object restores every property of the object as an entry. A text that parses to any
  other value but \<^verbatim>\<open>null\<close>, like an object whose values are no credentials, is not
  taken for corrupt: nothing is removed, and the map gets the entries that
  \<^verbatim>\<open>Object.entries\<close> gives for the value, unchecked.
\<close>

theorem loadTokens_fail_safe:
  "(removeItem_throws ls = None \<and> getItem_throws ls = Some e \<longrightarrow>
      new_TokenManager ls =
        Inr \<lparr>tokens = [], storage = ls\<lparr>items := (items ls)(''fb_tokens'' := None)\<rparr>\<rparr>)
   \<and> (removeItem_throws ls = None \<and> getItem_throws ls = None
        \<and> (items ls ''fb_tokens'' = Some Malformed \<or> items ls ''fb_tokens'' = Some (Parsed JNull)) \<longrightarrow>
      new_TokenManager ls =
        Inr \<lparr>tokens = [], storage = ls\<lparr>items := (items ls)(''fb_tokens'' := None)\<rparr>\<rparr>)
   \<and> (getItem_throws ls = None
        \<and> (items ls ''fb_tokens'' = None \<or> items ls ''fb_tokens'' = Some Empty_text) \<longrightarrow>
      new_TokenManager ls = Inr \<lparr>tokens = [], storage = ls\<rparr>)
   \<and> (getItem_throws ls = None \<and> items ls ''fb_tokens'' = Some (Parsed (JObj doc))
        \<and> distinct (map fst doc) \<longrightarrow>
      (\<exists>tm. new_TokenManager ls = Inr tm \<and> storage tm = ls \<and> map_of (tokens tm) = map_of doc))
   \<and> (getItem_throws ls = None \<and> items ls ''fb_tokens'' = Some (Parsed v)
        \<and> Object_entries v = Inr entries \<and> distinct (map fst entries) \<longrightarrow>
      (\<exists>tm. new_TokenManager ls = Inr tm \<and> storage tm = ls \<and> map_of (tokens tm) = map_of entries))"
proof (intro conjI impI)
  assume a: "removeItem_throws ls = None \<and> getItem_throws ls = Some e"
  then have "loadTokens_body \<lparr>tokens = [], storage = ls\<rparr> = Inl e"
    by (simp add: loadTokens_body_def getItem_def)
  with a show "new_TokenManager ls =
        Inr \<lparr>tokens = [], storage = ls\<lparr>items := (items ls)(''fb_tokens'' := None)\<rparr>\<rparr>"
    by (simp add: loadTokens_discards)
next
  assume a: "removeItem_throws ls = None \<and> getItem_throws ls = None
        \<and> (items ls ''fb_tokens'' = Some Malformed \<or> items ls ''fb_tokens'' = Some (Parsed JNull))"
  then have "\<exists>x. loadTokens_body \<lparr>tokens = [], storage = ls\<rparr> = Inl x"
    by (auto simp: loadTokens_body_def getItem_def)
  then obtain x where "loadTokens_body \<lparr>tokens = [], storage = ls\<rparr> = Inl x" ..
  with a show "new_TokenManager ls =
        Inr \<lparr>tokens = [], storage = ls\<lparr>items := (items ls)(''fb_tokens'' := None)\<rparr>\<rparr>"
    by (simp add: loadTokens_discards)
next
  assume "getItem_throws ls = None
        \<and> (items ls ''fb_tokens'' = None \<or> items ls ''fb_tokens'' = Some Empty_text)"
  then show "new_TokenManager ls = Inr \<lparr>tokens = [], storage = ls\<rparr>"
    by (auto simp: new_TokenManager_def loadTokens_def loadTokens_body_def getItem_def)
next
  assume a: "getItem_throws ls = None \<and> items ls ''fb_tokens'' = Some (Parsed (JObj doc))
        \<and> distinct (map fst doc)"
  then have "new_TokenManager ls =
           Inr \<lparr>tokens = fold (\<lambda>(key, val) m. AList.update key val m) doc [], storage = ls\<rparr>"
    by (simp add: loadTokens_restores)
  with a show "\<exists>tm. new_TokenManager ls = Inr tm \<and> storage tm = ls \<and> map_of (tokens tm) = map_of doc"
    by (simp add: fold_update_fresh)
next
  assume a: "getItem_throws ls = None \<and> items ls ''fb_tokens'' = Some (Parsed v)
        \<and> Object_entries v = Inr entries \<and> distinct (map fst entries)"
  then have "new_TokenManager ls =
           Inr \<lparr>tokens = fold (\<lambda>(key, val) m. AList.update key val m) entries [], storage = ls\<rparr>"
    by (simp add: loadTokens_restores)
  with a show "\<exists>tm. new_TokenManager ls = Inr tm \<and> storage tm = ls \<and> map_of (tokens tm) = map_of entries"
    by (simp add: fold_update_fresh)
qed

text \<open>
  Claim C7 as stated says a corrupt blob is discarded whole and the store starts empty.
  A stored text that parses but holds no credentials is kept: for the object with the
  property A holding the string x the map starts with that entry, and for the JSON
  string ab it starts with the entries 0 and 1 holding its characters; in both cases the
  item stays in the storage.
\<close>

theorem misshapen_blob_counterexample:
  "new_TokenManager misshapen_storage =
     Inr \<lparr>tokens = [(''A'', JStr ''x'')], storage = misshapen_storage\<rparr>
   \<and> items misshapen_storage ''fb_tokens'' = Some (Parsed (JObj [(''A'', JStr ''x'')]))
   \<and> new_TokenManager string_storage =
       Inr \<lparr>tokens = [(''0'', JStr ''a''), (''1'', JStr ''b'')], storage = string_storage\<rparr>
   \<and> items string_storage ''fb_tokens'' = Some (Parsed (JStr ''ab''))"
  by (simp add: new_TokenManager_def loadTokens_def loadTokens_body_def getItem_def
      misshapen_storage_def string_storage_def storage_with_def indexed_def show_nat.simps
      digit_def)

theorem loadTokens_fail_safe_witness:
  "removeItem_throws corrupt_storage = None \<and> getItem_throws corrupt_storage = None
   \<and> items corrupt_storage ''fb_tokens'' = Some Malformed
   \<and> new_TokenManager corrupt_storage =
       Inr \<lparr>tokens = [], storage = corrupt_storage\<lparr>items := Map.empty\<rparr>\<rparr>
   \<and> getItem_throws saved_storage = None
   \<and> items saved_storage ''fb_tokens'' =
       Some (Parsed (JObj [(''A'', credential ''ta'' 1000), (''B'', credential ''tb'' 2000)]))
   \<and> distinct (map fst [(''A'', credential ''ta'' 1000), (''B'', credential ''tb'' 2000)])
   \<and> (\<exists>tm. new_TokenManager saved_storage = Inr tm \<and> storage tm = saved_storage
         \<and> map_of (tokens tm) = map_of [(''A'', credential ''ta'' 1000), (''B'', credential ''tb'' 2000)])"
proof -
  let ?doc = "[(''A'', credential ''ta'' 1000), (''B'', credential ''tb'' 2000)]"
  have c: "removeItem_throws corrupt_storage = None" "getItem_throws corrupt_storage = None"
    "items corrupt_storage ''fb_tokens'' = Some Malformed"
    by (simp_all add: corrupt_storage_def storage_with_def)
  have s: "getItem_throws saved_storage = None"
    "items saved_storage ''fb_tokens'' = Some (Parsed (JObj ?doc))"
    by (simp_all add: saved_storage_def storage_with_def)
  have d: "distinct (map fst ?doc)"
    by simp
  have e: "(items corrupt_storage)(''fb_tokens'' := None) = Map.empty"
    by (simp add: corrupt_storage_def storage_with_def)
  from loadTokens_fail_safe [of corrupt_storage _ ?doc _ "[]"] c
  have 1: "new_TokenManager corrupt_storage =
       Inr \<lparr>tokens = [], storage = corrupt_storage\<lparr>items := Map.empty\<rparr>\<rparr>"
    by (simp add: e)
  from loadTokens_fail_safe [of saved_storage _ ?doc _ "[]"] s d
  have 2: "\<exists>tm. new_TokenManager saved_storage = Inr tm \<and> storage tm = saved_storage
         \<and> map_of (tokens tm) = map_of ?doc"
    by simp
  from c s d 1 2 show ?thesis by simp
qed

section \<open>Properties of the retry wrapper\<close>

lemma invocations_attempts_then: "invocations (attempts_then errs r) = map Inl errs @ [r]"
  by (induction errs) simp_all

lemma sleeps_attempts_then: "sleeps (attempts_then errs r) = replicate (length errs) retryDelay"
  by (induction errs) simp_all

lemma retry_from_shape:
  "i < attempts \<Longrightarrow>
   \<exists>errs r w'. retry_from fn attempts i w = (r, w', attempts_then errs r)
      \<and> run_op fn (Suc (length errs)) w = (map Inl errs @ [r], w')
      \<and> i + int (length errs) < attempts
      \<and> ((\<exists>e. r = Inl e) \<longrightarrow> i + int (length errs) = attempts - 1)"
proof (induction fn attempts i w rule: retry_from.induct)
  case (1 fn attempts i w)
  obtain out w1 where f: "fn w = (out, w1)" by (cases "fn w")
  show ?case
  proof (cases out)
    case (Inr v)
    have "retry_from fn attempts i w = (Inr v, w1, attempts_then [] (Inr v))"
      using "1.prems" f Inr by simp
    moreover have "run_op fn (Suc (length ([]::thrown list))) w = (map Inl [] @ [Inr v], w1)"
      using f Inr by simp
    ultimately show ?thesis
      using "1.prems" by (intro exI [of _ "[]"] exI [of _ "Inr v"] exI [of _ w1]) simp
  next
    case (Inl e)
    show ?thesis
    proof (cases "i = attempts - 1")
      case True
      have "retry_from fn attempts i w = (Inl e, w1, attempts_then [] (Inl e))"
        using "1.prems" f Inl True by simp
      moreover have "run_op fn (Suc (length ([]::thrown list))) w = (map Inl [] @ [Inl e], w1)"
        using f Inl by simp
      ultimately show ?thesis
        using "1.prems" True by (intro exI [of _ "[]"] exI [of _ "Inl e"] exI [of _ w1]) simp
    next
      case False
      with "1.prems" have lt: "i + 1 < attempts" by simp
      from "1.IH" [OF "1.prems" f [symmetric] _ False lt] Inl
      obtain errs r w' where
        rf: "retry_from fn attempts (i + 1) w1 = (r, w', attempts_then errs r)"
        and ro: "run_op fn (Suc (length errs)) w1 = (map Inl errs @ [r], w')"
        and b: "i + 1 + int (length errs) < attempts"
        and l: "(\<exists>e. r = Inl e) \<longrightarrow> i + 1 + int (length errs) = attempts - 1"
        by auto
      have "retry_from fn attempts i w = (r, w', attempts_then (e # errs) r)"
        using "1.prems" f Inl False rf by simp
      moreover have "run_op fn (Suc (length (e # errs))) w = (map Inl (e # errs) @ [r], w')"
        using f Inl ro by simp
      ultimately show ?thesis
        using b l by (intro exI [of _ "e # errs"] exI [of _ r] exI [of _ w']) auto
    qed
  qed
qed

text \<open>
  Claim C3. With at least one attempt allowed, a run of \<^verbatim>\<open>retry\<close> is a number of
  failed invocations, each followed by one sleep of \<open>retryDelay\<close>, and a last invocation
  whose outcome is the outcome of the run: these are the successive invocations of the
  operation, there are at most \<open>attempts\<close> of them, the sleeps are all \<open>retryDelay\<close> and
  one fewer than the invocations, and an error is the outcome only when all \<open>attempts\<close>
  invocations were made.
\<close>

theorem retry_contract:
  assumes "1 \<le> attempts"
  shows "\<exists>errs r w'. retry fn attempts w = (r, w', attempts_then errs r)
      \<and> run_op fn (Suc (length errs)) w = (map Inl errs @ [r], w')
      \<and> invocations (attempts_then errs r) = map Inl errs @ [r]
      \<and> int (length (invocations (attempts_then errs r))) \<le> attempts
      \<and> sleeps (attempts_then errs r) = replicate (length errs) retryDelay
      \<and> ((\<exists>e. r = Inl e) \<longrightarrow> int (length (invocations (attempts_then errs r))) = attempts)"
proof -
  from assms have "0 < attempts" by simp
  from retry_from_shape [OF this, of fn w]
  obtain errs r w' where
    rf: "retry_from fn attempts 0 w = (r, w', attempts_then errs r)"
    and ro: "run_op fn (Suc (length errs)) w = (map Inl errs @ [r], w')"
    and b: "0 + int (length errs) < attempts"
    and l: "(\<exists>e. r = Inl e) \<longrightarrow> 0 + int (length errs) = attempts - 1"
    by blast
  have inv: "invocations (attempts_then errs r) = map Inl errs @ [r]"
    by (rule invocations_attempts_then)
  have sl: "sleeps (attempts_then errs r) = replicate (length errs) retryDelay"
    by (rule sleeps_attempts_then)
  have len: "int (length (invocations (attempts_then errs r))) = int (length errs) + 1"
    by (simp add: inv)
  show ?thesis
    using rf ro inv sl b l len
    by (intro exI [of _ errs] exI [of _ r] exI [of _ w']) (auto simp: retry_def)
qed

lemma retry_flaky_twice:
  "retry flaky_twice 3 0 =
     (Inr ''done'', 3,
      [Attempt (Inl (Error ''flaky'')), Sleep 5000, Attempt (Inl (Error ''flaky'')), Sleep 5000,
       Attempt (Inr ''done'')])"
  by (simp add: retry_def flaky_twice_def retryDelay_def)

text \<open>With three attempts, an operation that fails twice and then succeeds gives the
  success after exactly three invocations and two sleeps of 5000 ms.\<close>

theorem retry_contract_witness:
  "(1::int) \<le> 3
   \<and> retry flaky_twice 3 0 =
       (Inr ''done'', 3, attempts_then [Error ''flaky'', Error ''flaky''] (Inr ''done''))
   \<and> invocations (attempts_then [Error ''flaky'', Error ''flaky''] (Inr ''done'' :: thrown + string))
       = [Inl (Error ''flaky''), Inl (Error ''flaky''), Inr ''done'']
   \<and> length (invocations (attempts_then [Error ''flaky'', Error ''flaky''] (Inr ''done'' :: thrown + string))) = 3
   \<and> sleeps (attempts_then [Error ''flaky'', Error ''flaky''] (Inr ''done'' :: thrown + string)) = [5000, 5000]"
proof -
  have h: "(1::int) \<le> 3" by simp
  from retry_contract [OF h, of flaky_twice 0]
  obtain errs r w' where
    rf: "retry flaky_twice 3 0 = (r, w', attempts_then errs r)"
    and inv: "invocations (attempts_then errs r) = map Inl errs @ [r]"
    and sl: "sleeps (attempts_then errs r) = replicate (length errs) retryDelay"
    by blast
  from rf have r: "r = Inr ''done''" and w: "w' = 3"
    and ev: "attempts_then errs r = [Attempt (Inl (Error ''flaky'')), Sleep 5000, Attempt (Inl (Error ''flaky'')), Sleep 5000,
       Attempt (Inr ''done'')]"
    by (auto simp: retry_flaky_twice)
  from inv ev have "map Inl errs @ [r] = [Inl (Error ''flaky''), Inl (Error ''flaky''), Inr ''done'']"
    by simp
  then have errs: "errs = [Error ''flaky'', Error ''flaky'']"
    by (cases errs; cases "tl errs"; cases "tl (tl errs)") auto
  show ?thesis
    using h rf inv sl unfolding r w errs by (simp add: retryDelay_def)
qed

section \<open>Properties of the image upload and the cleanup\<close>

lemma uploadImage_body_effect:
  "\<exists>a' r n. uploadImage_body env imageUrl a = (a', r)
     \<and> n \<le> 5
     \<and> io_log a' = io_log a @ take n (upload_steps imageUrl (clock env))
     \<and> browser a' = browser a \<and> page a' = page a \<and> isLoggedIn a' = isLoggedIn a
     \<and> (r = Inr () \<longrightarrow> n = 5 \<and> files a' = files a - {clock env})
     \<and> files a' = (if n < 3 then files a
                    else if n < 5 then insert (clock env) (files a)
                    else files a - {clock env})"
proof (cases "page_query env imageUpload")
  case (Inl e)
  then have "uploadImage_body env imageUrl a = (log_io (Queried imageUpload) a, Inl e)"
    by (simp add: uploadImage_body_def)
  then show ?thesis
    by (intro exI [of _ "log_io (Queried imageUpload) a"] exI [of _ "Inl e"] exI [of _ 1])
       (simp add: log_io_def upload_steps_def)
next
  case q: (Inr fileInput)
  show ?thesis
  proof (cases fileInput)
    case False
    with q have "uploadImage_body env imageUrl a =
        (log_io (Queried imageUpload) a, Inl (Error ''Image upload input not found''))"
      by (simp add: uploadImage_body_def)
    then show ?thesis
      by (intro exI [of _ "log_io (Queried imageUpload) a"]
            exI [of _ "Inl (Error ''Image upload input not found'')"] exI [of _ 1])
         (simp add: log_io_def upload_steps_def)
  next
    case True
    show ?thesis
    proof (cases "fetch env imageUrl")
      case (Inl e)
      with q True have "uploadImage_body env imageUrl a = (log_io (Queried imageUpload) a, Inl e)"
        by (simp add: uploadImage_body_def)
      then show ?thesis
        by (intro exI [of _ "log_io (Queried imageUpload) a"] exI [of _ "Inl e"] exI [of _ 1])
           (simp add: log_io_def upload_steps_def)
    next
      case f: (Inr buffer)
      let ?a2 = "log_io (Fetched imageUrl) (log_io (Queried imageUpload) a)"
      show ?thesis
      proof (cases "writeFile env (clock env)")
        case (Some e)
        with q True f have "uploadImage_body env imageUrl a = (?a2, Inl e)"
          by (simp add: uploadImage_body_def Let_def)
        then show ?thesis
          by (intro exI [of _ ?a2] exI [of _ "Inl e"] exI [of _ 2])
             (simp add: log_io_def upload_steps_def)
      next
        case wr: None
        let ?a3 = "log_io (Wrote (clock env)) (?a2\<lparr>files := insert (clock env) (files ?a2)\<rparr>)"
        show ?thesis
        proof (cases "uploadFile env (clock env)")
          case (Some e)
          with q True f wr have "uploadImage_body env imageUrl a = (?a3, Inl e)"
            by (simp add: uploadImage_body_def Let_def)
          then show ?thesis
            by (intro exI [of _ ?a3] exI [of _ "Inl e"] exI [of _ 3])
               (simp add: log_io_def upload_steps_def)
        next
          case up: None
          let ?a4 = "log_io (Attached (clock env)) ?a3"
          show ?thesis
          proof (cases "unlink env (clock env)")
            case (Some e)
            with q True f wr up have "uploadImage_body env imageUrl a = (?a4, Inl e)"
              by (simp add: uploadImage_body_def Let_def)
            then show ?thesis
              by (intro exI [of _ ?a4] exI [of _ "Inl e"] exI [of _ 4])
                 (simp add: log_io_def upload_steps_def)
          next
            case None
            let ?a5 = "log_io (Unlinked (clock env)) (?a4\<lparr>files := files ?a4 - {clock env}\<rparr>)"
            from q True f wr up None have "uploadImage_body env imageUrl a = (?a5, Inr ())"
              by (simp add: uploadImage_body_def Let_def)
            then show ?thesis
              by (intro exI [of _ ?a5] exI [of _ "Inr ()"] exI [of _ 5])
                 (simp add: log_io_def upload_steps_def)
          qed
        qed
      qed
    qed
  qed
qed

text \<open>
  What \<^verbatim>\<open>uploadImage\<close> and \<^verbatim>\<open>cleanup\<close> do on every path. \<^verbatim>\<open>uploadImage\<close> performs
  a prefix of the steps query, fetch, write the temporary file, attach it, unlink it, in
  that order, so the image is fetched and written locally before it is attached. When it
  ends before the write, the directory is as it was; when it returns without error all
  five steps were made and the temporary file is gone; when it ends after the write and
  before the end of the unlink, the temporary file is left in the directory. It never
  changes the session fields: the session is torn down only by a call of \<^verbatim>\<open>cleanup\<close>,
  which closes an open browser and clears the fields, rethrows what the close throws
  (leaving the fields), and does nothing without a browser.
\<close>

lemma uploadImage_temp_file:
  "(page a \<longrightarrow>
      (\<exists>a' r n. uploadImage env imageUrl a = (a', r)
         \<and> io_log a' = io_log a @ take n (upload_steps imageUrl (clock env))
         \<and> browser a' = browser a \<and> page a' = page a \<and> isLoggedIn a' = isLoggedIn a
         \<and> (r = Inr () \<longrightarrow> n = 5 \<and> files a' = files a - {clock env})
         \<and> files a' = (if n < 3 then files a
                        else if n < 5 then insert (clock env) (files a)
                        else files a - {clock env})))
   \<and> (\<not> page a \<longrightarrow> uploadImage env imageUrl a = (a, Inl (Error ''Browser page not initialized'')))
   \<and> (browser a \<and> browser_close env = None \<longrightarrow>
        cleanup env a = (log_io Closed (a\<lparr>browser := False, page := False, isLoggedIn := False\<rparr>), Inr ()))
   \<and> (browser a \<and> browser_close env = Some e \<longrightarrow> cleanup env a = (a, Inl e))
   \<and> (\<not> browser a \<longrightarrow> cleanup env a = (a, Inr ()))"
proof (intro conjI impI)
  assume p: "page a"
  from uploadImage_body_effect [of env imageUrl a]
  obtain a' r n where b: "uploadImage_body env imageUrl a = (a', r)"
    and rest: "io_log a' = io_log a @ take n (upload_steps imageUrl (clock env))"
      "browser a' = browser a" "page a' = page a" "isLoggedIn a' = isLoggedIn a"
      "r = Inr () \<longrightarrow> n = 5 \<and> files a' = files a - {clock env}"
      "files a' = (if n < 3 then files a
                    else if n < 5 then insert (clock env) (files a)
                    else files a - {clock env})"
    by (elim exE conjE)
  from p b have "uploadImage env imageUrl a = (a', r)"
    by (cases r) (simp_all add: uploadImage_def)
  with rest show "\<exists>a' r n. uploadImage env imageUrl a = (a', r)
         \<and> io_log a' = io_log a @ take n (upload_steps imageUrl (clock env))
         \<and> browser a' = browser a \<and> page a' = page a \<and> isLoggedIn a' = isLoggedIn a
         \<and> (r = Inr () \<longrightarrow> n = 5 \<and> files a' = files a - {clock env})
         \<and> files a' = (if n < 3 then files a
                        else if n < 5 then insert (clock env) (files a)
                        else files a - {clock env})"
    by blast
qed (simp_all add: uploadImage_def cleanup_def)

lemma uploadImage_on_success:
  "page session0
   \<and> uploadImage surface_ok ''https://example.com/i.jpg'' session0 =
       (session0\<lparr>io_log := upload_steps ''https://example.com/i.jpg'' 42\<rparr>, Inr ())
   \<and> browser session0 \<and> browser_close surface_ok = None
   \<and> cleanup surface_ok session0 =
       (\<lparr>browser = False, page = False, isLoggedIn = False, files = {}, io_log = [Closed]\<rparr>, Inr ())"
proof -
  have p: "page session0" and b: "browser session0" and c: "browser_close surface_ok = None"
    by (simp_all add: session0_def surface_ok_def)
  have u: "uploadImage surface_ok ''https://example.com/i.jpg'' session0 =
       (session0\<lparr>io_log := upload_steps ''https://example.com/i.jpg'' 42\<rparr>, Inr ())"
    by (simp add: uploadImage_def uploadImage_body_def surface_ok_def session0_def log_io_def
        upload_steps_def)
  from uploadImage_temp_file [of session0 surface_ok "''https://example.com/i.jpg''"] b c
  have "cleanup surface_ok session0 =
      (log_io Closed (session0\<lparr>browser := False, page := False, isLoggedIn := False\<rparr>), Inr ())"
    by blast
  then have "cleanup surface_ok session0 =
       (\<lparr>browser = False, page = False, isLoggedIn = False, files = {}, io_log = [Closed]\<rparr>, Inr ())"
    by (simp add: session0_def log_io_def)
  with p b c u show ?thesis by simp
qed

text \<open>
  Claim C6 says that the temporary file is removed, and the session torn down, on every
  exit path of a publish attempt. The code does otherwise at this input: on an open
  session, the file input is found, the image is fetched and written to the temporary
  file of the instant 42, and attaching the file throws. \<^verbatim>\<open>uploadImage\<close> rethrows with
  the temporary file still in the directory (the unlink comes only after a successful
  attach, and there is no \<^verbatim>\<open>finally\<close>) and with the session still open.
\<close>

theorem uploadImage_leaves_temp_file:
  "uploadImage surface_upload_fails ''https://example.com/i.jpg'' session0 =
     (\<lparr>browser = True, page = True, isLoggedIn = True, files = {42},
       io_log = [Queried imageUpload, Fetched ''https://example.com/i.jpg'', Wrote 42]\<rparr>,
      Inl (Error ''upload failed''))"
  by (simp add: uploadImage_def uploadImage_body_def surface_upload_fails_def surface_ok_def
      session0_def log_io_def)

section \<open>Properties of the navigation to a page\<close>

lemma verify_calls_append: "verify_calls (xs @ ys) = verify_calls xs + verify_calls ys"
  by (induction xs rule: verify_calls.induct) simp_all

lemma retry_sleeps_append: "retry_sleeps (xs @ ys) = retry_sleeps xs @ retry_sleeps ys"
  by (induction xs rule: retry_sleeps.induct) simp_all

lemma verify_calls_Dollar: "verify_calls (map Dollar sels) = 0"
  by (induction sels) simp_all

lemma retry_sleeps_Dollar: "retry_sleeps (map Dollar sels) = []"
  by (induction sels) simp_all

lemma admin_loop_effect:
  "\<exists>n r. admin_loop pg sels lg = (lg @ map Dollar (take n sels), r)
      \<and> (r = Inr True \<longrightarrow> (\<exists>sel \<in> set sels. dollar pg sel = Inr True))
      \<and> (\<forall>e. r = Inl e \<longrightarrow> (\<exists>sel \<in> set sels. dollar pg sel = Inl e))"
proof (induction sels arbitrary: lg)
  case Nil
  then show ?case by simp
next
  case (Cons selector rest)
  show ?case
  proof (cases "dollar pg selector")
    case (Inl e)
    then have "admin_loop pg (selector # rest) lg = (lg @ map Dollar (take 1 (selector # rest)), Inl e)"
      by simp
    with Inl show ?thesis
      by (intro exI [of _ 1] exI [of _ "Inl e"]) simp
  next
    case (Inr element)
    show ?thesis
    proof (cases element)
      case True
      with Inr have "admin_loop pg (selector # rest) lg = (lg @ map Dollar (take 1 (selector # rest)), Inr True)"
        by simp
      with Inr True show ?thesis
        by (intro exI [of _ 1] exI [of _ "Inr True"]) simp
    next
      case False
      from Cons.IH [of "lg @ [Dollar selector]"]
      obtain n r where a: "admin_loop pg rest (lg @ [Dollar selector]) = ((lg @ [Dollar selector]) @ map Dollar (take n rest), r)
        \<and> (r = Inr True \<longrightarrow> (\<exists>sel \<in> set rest. dollar pg sel = Inr True))
        \<and> (\<forall>e. r = Inl e \<longrightarrow> (\<exists>sel \<in> set rest. dollar pg sel = Inl e))"
        by (elim exE)
      from Inr False a have "admin_loop pg (selector # rest) lg = (lg @ map Dollar (take (Suc n) (selector # rest)), r)"
        by simp
      with a show ?thesis
        by (intro exI [of _ "Suc n"] exI [of _ r]) auto
    qed
  qed
qed

lemma admin_loop_absent:
  "\<forall>sel \<in> set sels. dollar pg sel = Inr False \<Longrightarrow>
   admin_loop pg sels lg = (lg @ map Dollar sels, Inr False)"
  by (induction sels arbitrary: lg) simp_all

lemma verifyPageAdminAccess_absent:
  "\<forall>sel \<in> set adminSelectors. dollar pg sel = Inr False \<Longrightarrow>
   verifyPageAdminAccess pg lg = (lg @ VerifyAdminCalled # map Dollar adminSelectors, Inr False)"
  by (simp add: verifyPageAdminAccess_def admin_loop_absent)

lemma verifyPageAdminAccess_returns:
  assumes "\<forall>sel \<in> set adminSelectors. dollar pg sel \<noteq> Inl Nullish"
  shows "\<exists>n b. verifyPageAdminAccess pg lg = (lg @ VerifyAdminCalled # map Dollar (take n adminSelectors), Inr b)
      \<and> (b \<longrightarrow> (\<exists>sel \<in> set adminSelectors. dollar pg sel = Inr True))"
proof -
  from admin_loop_effect [of pg adminSelectors "lg @ [VerifyAdminCalled]"]
  obtain n r where a: "admin_loop pg adminSelectors (lg @ [VerifyAdminCalled]) =
        ((lg @ [VerifyAdminCalled]) @ map Dollar (take n adminSelectors), r)
      \<and> (r = Inr True \<longrightarrow> (\<exists>sel \<in> set adminSelectors. dollar pg sel = Inr True))
      \<and> (\<forall>e. r = Inl e \<longrightarrow> (\<exists>sel \<in> set adminSelectors. dollar pg sel = Inl e))"
    by (elim exE)
  show ?thesis
  proof (cases r)
    case (Inl e)
    with a assms have "e \<noteq> Nullish" by auto
    then have "read_message e = None" by (cases e) simp_all
    with a Inl have "verifyPageAdminAccess pg lg = (lg @ VerifyAdminCalled # map Dollar (take n adminSelectors), Inr False)"
      by (simp add: verifyPageAdminAccess_def)
    then show ?thesis
      by (intro exI [of _ n] exI [of _ False]) simp
  next
    case (Inr v)
    with a have "verifyPageAdminAccess pg lg = (lg @ VerifyAdminCalled # map Dollar (take n adminSelectors), Inr v)"
      by (simp add: verifyPageAdminAccess_def)
    with a Inr show ?thesis
      by (intro exI [of _ n] exI [of _ v]) simp
  qed
qed

lemma script_retry_verify:
  "verifyPageAdminAccess pg lg = (lg', Inr v) \<Longrightarrow>
   script_retry (verifyPageAdminAccess pg) lg = (lg', Inr (Some v))"
  by (simp add: script_retry_def script_retryAttempts_def)

lemma navigateToPage_denied:
  assumes "navigate_open pg pageId lg = (lg1, Inr ())"
    and "verifyPageAdminAccess pg lg1 = (lg2, Inr False)"
  shows "navigateToPage pg pageId lg = (lg2, Inl (Error ''No admin access to the page''))"
proof -
  have r: "script_retry (verifyPageAdminAccess pg) lg1 = (lg2, Inr (Some False))"
    using assms(2) by (rule script_retry_verify)
  have "navigateToPage_body pg pageId lg =
      (case script_retry (verifyPageAdminAccess pg) lg1 of
           (lg2, Inl e) \<Rightarrow> (lg2, Inl e)
         | (lg2, Inr hasAdminAccess) \<Rightarrow>
             if hasAdminAccess = Some True then (lg2, Inr True)
             else (lg2, Inl (Error ''No admin access to the page'')))"
    by (simp only: navigateToPage_body_def assms(1) prod.case sum.case)
  also have "\<dots> = (lg2, Inl (Error ''No admin access to the page''))"
    by (simp only: r prod.case sum.case) simp
  finally show ?thesis
    by (simp add: navigateToPage_def)
qed

text \<open>
  Claim C5. When the navigation has reached the check and every admin selector finds no
  element, \<^verbatim>\<open>navigateToPage\<close> queries the three selectors once each in a single
  verification and throws \<^verbatim>\<open>No admin access to the page\<close>: one verification, no retry
  sleep. The same holds when a query throws instead, as long as it throws no
  \<^verbatim>\<open>null\<close> or \<^verbatim>\<open>undefined\<close>: the check takes the throw for no element. In general,
  when no query for an admin selector throws \<^verbatim>\<open>null\<close> or \<^verbatim>\<open>undefined\<close>,
  \<^verbatim>\<open>verifyPageAdminAccess\<close> returns, so the \<^verbatim>\<open>retry\<close> around it invokes it once and
  returns without sleeping.
\<close>

theorem admin_check_not_retried:
  "(navigate_open pg pageId lg = (lg1, Inr ())
      \<and> (\<forall>sel \<in> set adminSelectors. dollar pg sel = Inr False) \<longrightarrow>
        navigateToPage pg pageId lg =
          (lg1 @ VerifyAdminCalled # map Dollar adminSelectors,
           Inl (Error ''No admin access to the page''))
        \<and> verify_calls (VerifyAdminCalled # map Dollar adminSelectors) = 1
        \<and> retry_sleeps (VerifyAdminCalled # map Dollar adminSelectors) = [])
   \<and> (navigate_open pg pageId lg = (lg1, Inr ())
        \<and> (\<forall>sel \<in> set adminSelectors. dollar pg sel \<noteq> Inr True \<and> dollar pg sel \<noteq> Inl Nullish) \<longrightarrow>
      (\<exists>evs. navigateToPage pg pageId lg = (lg1 @ evs, Inl (Error ''No admin access to the page''))
         \<and> verify_calls evs = 1 \<and> retry_sleeps evs = []))
   \<and> ((\<forall>sel \<in> set adminSelectors. dollar pg sel \<noteq> Inl Nullish) \<longrightarrow>
      (\<exists>n b. script_retry (verifyPageAdminAccess pg) lg0 =
        (lg0 @ VerifyAdminCalled # map Dollar (take n adminSelectors), Inr (Some b))))"
proof (intro conjI impI)
  assume a: "navigate_open pg pageId lg = (lg1, Inr ())
      \<and> (\<forall>sel \<in> set adminSelectors. dollar pg sel = Inr False)"
  then have open_ok: "navigate_open pg pageId lg = (lg1, Inr ())"
    and absent: "\<forall>sel \<in> set adminSelectors. dollar pg sel = Inr False"
    by simp_all
  from navigateToPage_denied [OF open_ok verifyPageAdminAccess_absent [OF absent]]
  show "navigateToPage pg pageId lg =
          (lg1 @ VerifyAdminCalled # map Dollar adminSelectors,
           Inl (Error ''No admin access to the page''))" .
next
  show "verify_calls (VerifyAdminCalled # map Dollar adminSelectors) = 1"
    by (simp add: verify_calls_Dollar)
next
  show "retry_sleeps (VerifyAdminCalled # map Dollar adminSelectors) = []"
    by (simp add: retry_sleeps_Dollar)
next
  assume a: "\<forall>sel \<in> set adminSelectors. dollar pg sel \<noteq> Inl Nullish"
  from verifyPageAdminAccess_returns [OF a, of lg0]
  obtain n b where v: "verifyPageAdminAccess pg lg0 =
      (lg0 @ VerifyAdminCalled # map Dollar (take n adminSelectors), Inr b)"
    by (elim exE conjE)
  have "script_retry (verifyPageAdminAccess pg) lg0 =
        (lg0 @ VerifyAdminCalled # map Dollar (take n adminSelectors), Inr (Some b))"
    using v by (rule script_retry_verify)
  then show "\<exists>n b. script_retry (verifyPageAdminAccess pg) lg0 =
        (lg0 @ VerifyAdminCalled # map Dollar (take n adminSelectors), Inr (Some b))"
    by (intro exI)
next
  assume a: "navigate_open pg pageId lg = (lg1, Inr ())
        \<and> (\<forall>sel \<in> set adminSelectors. dollar pg sel \<noteq> Inr True \<and> dollar pg sel \<noteq> Inl Nullish)"
  then have open_ok: "navigate_open pg pageId lg = (lg1, Inr ())"
    and absent: "\<forall>sel \<in> set adminSelectors. dollar pg sel \<noteq> Inr True"
    and calm: "\<forall>sel \<in> set adminSelectors. dollar pg sel \<noteq> Inl Nullish"
    by simp_all
  from verifyPageAdminAccess_returns [OF calm, of lg1]
  obtain n b where v: "verifyPageAdminAccess pg lg1 =
      (lg1 @ VerifyAdminCalled # map Dollar (take n adminSelectors), Inr b)"
    and f: "b \<longrightarrow> (\<exists>sel \<in> set adminSelectors. dollar pg sel = Inr True)"
    by (elim exE conjE)
  from f absent have nb: "b = False" by blast
  have nav: "navigateToPage pg pageId lg =
      (lg1 @ VerifyAdminCalled # map Dollar (take n adminSelectors),
       Inl (Error ''No admin access to the page''))"
    using open_ok v unfolding nb by (rule navigateToPage_denied)
  have vc: "verify_calls (VerifyAdminCalled # map Dollar (take n adminSelectors)) = 1"
    by (simp add: verify_calls_Dollar)
  have rs: "retry_sleeps (VerifyAdminCalled # map Dollar (take n adminSelectors)) = []"
    by (simp add: retry_sleeps_Dollar)
  from nav vc rs
  show "\<exists>evs. navigateToPage pg pageId lg = (lg1 @ evs, Inl (Error ''No admin access to the page''))
         \<and> verify_calls evs = 1 \<and> retry_sleeps evs = []"
    by (intro exI [of _ "VerifyAdminCalled # map Dollar (take n adminSelectors)"] conjI)
qed

lemma navigate_open_visitor:
  "navigate_open visitor_page ''123'' [] =
     ([Goto (page_url ''123''), RateLimitWait ''navigation'', Dollar cookie_dialog, Dollar page_not_found],
      Inr ())"
  by (simp add: navigate_open_def visitor_page_def)

theorem admin_check_not_retried_witness:
  "navigate_open visitor_page ''123'' [] =
     ([Goto (page_url ''123''), RateLimitWait ''navigation'', Dollar cookie_dialog, Dollar page_not_found],
      Inr ())
   \<and> list_all (\<lambda>sel. dollar visitor_page sel = Inr False) adminSelectors
   \<and> navigateToPage visitor_page ''123'' [] =
       ([Goto (page_url ''123''), RateLimitWait ''navigation'', Dollar cookie_dialog, Dollar page_not_found,
         VerifyAdminCalled] @ map Dollar adminSelectors,
        Inl (Error ''No admin access to the page''))"
proof -
  let ?lg1 = "[Goto (page_url ''123''), RateLimitWait ''navigation'', Dollar cookie_dialog, Dollar page_not_found]"
  have h: "\<forall>sel \<in> set adminSelectors. dollar visitor_page sel = Inr False"
    by (simp add: visitor_page_def)
  from admin_check_not_retried [of visitor_page "''123''" "[]" ?lg1] navigate_open_visitor h
  have "navigateToPage visitor_page ''123'' [] =
       (?lg1 @ VerifyAdminCalled # map Dollar adminSelectors, Inl (Error ''No admin access to the page''))"
    by blast
  with navigate_open_visitor h show ?thesis
    by (simp add: list_all_iff)
qed

text \<open>
  Outside the claim: a query that throws \<^verbatim>\<open>undefined\<close> is not an absent element. The
  handler of \<^verbatim>\<open>verifyPageAdminAccess\<close> then throws a \<^verbatim>\<open>TypeError\<close> while reading
  the message, and the \<^verbatim>\<open>retry\<close> runs the verification three times with two sleeps
  before it rethrows.
\<close>

lemma verify_retried_after_nullish_throw:
  "script_retry (verifyPageAdminAccess broken_page) [] =
     ([VerifyAdminCalled, Dollar (hd adminSelectors), RetrySleep 5000,
       VerifyAdminCalled, Dollar (hd adminSelectors), RetrySleep 5000,
       VerifyAdminCalled, Dollar (hd adminSelectors)],
      Inl (Error ''TypeError''))"
proof -
  have v: "\<And>lg. verifyPageAdminAccess broken_page lg =
      (lg @ [VerifyAdminCalled, Dollar (hd adminSelectors)], Inl (Error ''TypeError''))"
    by (simp add: verifyPageAdminAccess_def adminSelectors_def broken_page_def)
  show ?thesis
    unfolding script_retry_def
    by (subst script_retry_from.simps, simp add: v script_retryAttempts_def script_retryDelay_def)+
qed

section \<open>Properties of the scheduler\<close>

lemma publish_calls_append: "publish_calls (xs @ ys) = publish_calls xs @ publish_calls ys"
  by (induction xs rule: publish_calls.induct) simp_all

lemma arms_append: "arms (xs @ ys) = arms xs @ arms ys"
  by (induction xs rule: arms.induct) simp_all

lemma update_status_trace:
  "\<exists>mid. trace (fst (update_status env now pid st err w)) = trace w @ mid
      \<and> arms mid = [] \<and> publish_calls mid = []"
proof (cases "update_outcome env pid st")
  case Applied
  then have "trace (fst (update_status env now pid st err w)) = trace w @ [StatusWritten pid st]"
    by (simp add: update_status_def)
  then show ?thesis by (intro exI [of _ "[StatusWritten pid st]"]) simp
next
  case Refused
  then show ?thesis by (intro exI [of _ "[]"]) (simp add: update_status_def)
next
  case (Rejected e)
  then show ?thesis by (intro exI [of _ "[]"]) (simp add: update_status_def)
qed

lemma update_status_throws:
  "snd (update_status env now pid st err w) =
     (case update_outcome env pid st of Rejected e \<Rightarrow> Some e | _ \<Rightarrow> None)"
  by (simp add: update_status_def split: write_outcome.split)

lemma initializeAnalytics_trace [simp]: "trace (initializeAnalytics env p w) = trace w"
  by (simp add: initializeAnalytics_def split: write_outcome.split option.split)

lemma initializeAnalytics_posts [simp]: "posts (initializeAnalytics env p w) = posts w"
  by (simp add: initializeAnalytics_def split: write_outcome.split option.split)

lemma on_failure_trace:
  "\<exists>mid. trace (fst (on_failure env now p e w)) = trace w @ mid
      \<and> arms mid = [] \<and> publish_calls mid = []"
  unfolding on_failure_def by (rule update_status_trace)

lemma finish_publish_trace:
  "\<exists>mid. trace (fst (finish_publish env now p w)) = trace w @ mid
      \<and> arms mid = [] \<and> publish_calls mid = []"
proof (cases "publishPost env p")
  case (Some e)
  then show ?thesis
    using on_failure_trace [of env now p e w] by (simp add: finish_publish_def)
next
  case None
  obtain w1 r where u: "update_status env now (post_id p) Published None w = (w1, r)"
    by (cases "update_status env now (post_id p) Published None w")
  from update_status_trace [of env now "post_id p" Published None w] u
  obtain m1 where m1: "trace w1 = trace w @ m1" "arms m1 = []" "publish_calls m1 = []"
    by auto
  show ?thesis
  proof (cases r)
    case n: None
    with None u have "trace (fst (finish_publish env now p w)) = trace w1"
      by (simp add: finish_publish_def)
    with m1 show ?thesis by auto
  next
    case (Some e)
    with None u have f: "finish_publish env now p w = on_failure env now p e w1"
      by (simp add: finish_publish_def)
    from on_failure_trace [of env now p e w1]
    obtain m2 where m2: "trace (fst (on_failure env now p e w1)) = trace w1 @ m2"
      "arms m2 = []" "publish_calls m2 = []"
      by auto
    show ?thesis
      using f m1 m2
      by (intro exI [of _ "m1 @ m2"]) (simp add: arms_append publish_calls_append)
  qed
qed

lemma finish_publish_throws:
  assumes "\<forall>e. update_outcome env (post_id p) Failed \<noteq> Rejected e"
  shows "snd (finish_publish env now p w) = None"
proof -
  have f: "\<And>e w. snd (on_failure env now p e w) = None"
    using assms by (simp add: on_failure_def update_status_throws split: write_outcome.split)
  show ?thesis
  proof (cases "publishPost env p")
    case (Some e)
    then show ?thesis using f by (simp add: finish_publish_def)
  next
    case None
    then show ?thesis
      using f by (simp add: finish_publish_def split: prod.split option.split)
  qed
qed

lemma processScheduledPost_trace:
  "\<exists>mid. trace (fst (processScheduledPost env now p w)) = trace w @ mid
      \<and> arms mid = [] \<and> publish_calls mid = [post_id p]"
proof -
  from finish_publish_trace [of env now p "begin_publish p w"]
  obtain m where m: "trace (fst (finish_publish env now p (begin_publish p w))) = trace (begin_publish p w) @ m"
    "arms m = []" "publish_calls m = []"
    by auto
  show ?thesis
    using m
    by (intro exI [of _ "PublishCalled (post_id p) # m"])
       (simp add: processScheduledPost_def begin_publish_def)
qed

lemma processScheduledPost_throws:
  "\<forall>e. update_outcome env (post_id p) Failed \<noteq> Rejected e \<Longrightarrow>
   snd (processScheduledPost env now p w) = None"
  by (simp add: processScheduledPost_def finish_publish_throws)

lemma process_posts_trace:
  "\<exists>mid n. trace (fst (process_posts env now ps w)) = trace w @ mid
      \<and> arms mid = [] \<and> n \<le> length ps \<and> publish_calls mid = take n (map post_id ps)
      \<and> (snd (process_posts env now ps w) = None \<longrightarrow> n = length ps)"
proof (induction ps arbitrary: w)
  case Nil
  then show ?case by simp
next
  case (Cons p ps)
  obtain w1 r where pr: "processScheduledPost env now p w = (w1, r)"
    by (cases "processScheduledPost env now p w")
  from processScheduledPost_trace [of env now p w] pr
  obtain m1 where m1: "trace w1 = trace w @ m1" "arms m1 = []" "publish_calls m1 = [post_id p]"
    by auto
  show ?case
  proof (cases r)
    case (Some e)
    with pr have pp: "process_posts env now (p # ps) w = (w1, Some e)" by simp
    show ?thesis
      unfolding pp using m1 
      by (intro exI [of _ m1] exI [of _ 1]) simp
  next
    case None
    with pr have eq: "process_posts env now (p # ps) w = process_posts env now ps w1" by simp
    from Cons.IH [of w1]
    obtain m2 n where m2: "trace (fst (process_posts env now ps w1)) = trace w1 @ m2
      \<and> arms m2 = [] \<and> n \<le> length ps \<and> publish_calls m2 = take n (map post_id ps)
      \<and> (snd (process_posts env now ps w1) = None \<longrightarrow> n = length ps)"
      by (elim exE)
    show ?thesis
      unfolding eq using m1 m2
      by (intro exI [of _ "m1 @ m2"] exI [of _ "Suc n"])
         (simp add: arms_append publish_calls_append)
  qed
qed

lemma process_posts_throws:
  "\<forall>p \<in> set ps. \<forall>e. update_outcome env (post_id p) Failed \<noteq> Rejected e \<Longrightarrow>
   snd (process_posts env now ps w) = None"
proof (induction ps arbitrary: w)
  case Nil
  then show ?case by simp
next
  case (Cons p ps)
  then have "snd (processScheduledPost env now p w) = None"
    by (simp add: processScheduledPost_throws)
  then obtain w1 where "processScheduledPost env now p w = (w1, None)"
    by (cases "processScheduledPost env now p w") simp
  with Cons show ?case by simp
qed

lemma checkScheduledPosts_returns: "snd (checkScheduledPosts env now w) = None"
  by (simp add: checkScheduledPosts_def Let_def split: option.split prod.split)

lemma checkScheduledPosts_fst:
  "select_outcome env = None \<Longrightarrow>
   fst (checkScheduledPosts env now w) =
     fst (process_posts env now (select_due now (posts w))
       (w\<lparr>trace := trace w @ [Selected (map post_id (select_due now (posts w)))]\<rparr>))"
  by (cases "process_posts env now (select_due now (posts w))
       (w\<lparr>trace := trace w @ [Selected (map post_id (select_due now (posts w)))]\<rparr>)";
      cases "snd (process_posts env now (select_due now (posts w))
       (w\<lparr>trace := trace w @ [Selected (map post_id (select_due now (posts w)))]\<rparr>))")
     (simp_all add: checkScheduledPosts_def Let_def)

lemma checkScheduledPosts_trace:
  assumes "select_outcome env = None"
  shows "\<exists>mid n. trace (fst (checkScheduledPosts env now w)) =
          trace w @ Selected (map post_id (select_due now (posts w))) # mid
      \<and> arms mid = [] \<and> n \<le> length (select_due now (posts w))
      \<and> publish_calls mid = take n (map post_id (select_due now (posts w)))
      \<and> ((\<forall>p \<in> set (select_due now (posts w)). \<forall>e. update_outcome env (post_id p) Failed \<noteq> Rejected e)
            \<longrightarrow> n = length (select_due now (posts w)))"
proof -
  define due where "due = select_due now (posts w)"
  define w0 where "w0 = w\<lparr>trace := trace w @ [Selected (map post_id due)]\<rparr>"
  have c: "fst (checkScheduledPosts env now w) = fst (process_posts env now due w0)"
    unfolding due_def w0_def using assms by (rule checkScheduledPosts_fst)
  have t0: "trace w0 = trace w @ [Selected (map post_id due)]"
    by (simp add: w0_def)
  from process_posts_trace [of env now due w0]
  obtain mid n where m: "trace (fst (process_posts env now due w0)) = trace w0 @ mid
      \<and> arms mid = [] \<and> n \<le> length due \<and> publish_calls mid = take n (map post_id due)
      \<and> (snd (process_posts env now due w0) = None \<longrightarrow> n = length due)"
    by (elim exE)
  have all: "(\<forall>p \<in> set due. \<forall>e. update_outcome env (post_id p) Failed \<noteq> Rejected e) \<longrightarrow> n = length due"
  proof
    assume "\<forall>p \<in> set due. \<forall>e. update_outcome env (post_id p) Failed \<noteq> Rejected e"
    then have "snd (process_posts env now due w0) = None"
      by (rule process_posts_throws)
    with m show "n = length due" by simp
  qed
  have "trace (fst (checkScheduledPosts env now w)) = trace w @ Selected (map post_id due) # mid"
    using m by (simp add: c t0)
  with m all show ?thesis
    unfolding due_def by (intro exI [of _ mid] exI [of _ n] conjI) simp_all
qed

lemma select_due_iff:
  "p \<in> set (select_due now ps) \<longleftrightarrow>
     p \<in> set ps \<and> status p = Scheduled \<and> (\<exists>t. scheduled_for p = Some t \<and> t \<le> now)"
  by (auto simp: select_due_def is_due_def split: option.splits)

lemma select_due_distinct:
  "distinct (map post_id ps) \<Longrightarrow> distinct (map post_id (select_due now ps))"
  by (simp add: select_due_def distinct_map_filter)

lemma start_trace:
  assumes "select_outcome env = None"
  shows "snd (start env now w) = None
     \<and> (\<exists>mid. trace (fst (start env now w)) =
           trace w @ Selected (map post_id (select_due now (posts w))) # mid @ [TimerArmed checkInterval]
         \<and> arms mid = [])"
proof -
  obtain w' r where c: "checkScheduledPosts env now w = (w', r)"
    by (cases "checkScheduledPosts env now w")
  from checkScheduledPosts_returns [of env now w] c have r: "r = None" by simp
  from checkScheduledPosts_trace [OF assms, of now w] c
  obtain mid where m: "trace w' = trace w @ Selected (map post_id (select_due now (posts w))) # mid"
    "arms mid = []"
    by auto
  have s: "start env now w = (w'\<lparr>trace := trace w' @ [TimerArmed checkInterval]\<rparr>, None)"
    by (simp add: start_def c r)
  show ?thesis
    unfolding s using m by (intro conjI exI [of _ mid]) simp_all
qed

text \<open>
  Claim C8. The query of a tick selects exactly the posts of the table whose status is
  \<open>scheduled\<close> and whose \<open>scheduled_for\<close> is set and at or before \<open>now\<close>, so no post in
  another status is selected. When the query succeeds, \<^verbatim>\<open>start\<close> first makes that
  selection and processes it, and sets the interval timer only afterwards, last of all;
  and every check begins with that selection and calls \<^verbatim>\<open>publishPost\<close> only for posts
  it selected.
\<close>
theorem tick_selects_due_posts:
  "(p \<in> set (select_due now ps) \<longleftrightarrow>
      p \<in> set ps \<and> status p = Scheduled \<and> (\<exists>t. scheduled_for p = Some t \<and> t \<le> now))
   \<and> (select_outcome env = None \<longrightarrow>
        snd (start env now w) = None
        \<and> (\<exists>mid. trace (fst (start env now w)) =
              trace w @ Selected (map post_id (select_due now (posts w))) # mid @ [TimerArmed checkInterval]
            \<and> arms mid = [])
        \<and> (\<exists>mid. trace (fst (checkScheduledPosts env now w)) =
              trace w @ Selected (map post_id (select_due now (posts w))) # mid
            \<and> set (publish_calls mid) \<subseteq> post_id ` set (select_due now (posts w))))"
proof (intro conjI impI)
  show "p \<in> set (select_due now ps) \<longleftrightarrow>
      p \<in> set ps \<and> status p = Scheduled \<and> (\<exists>t. scheduled_for p = Some t \<and> t \<le> now)"
    by (rule select_due_iff)
next
  assume a: "select_outcome env = None"
  from start_trace [OF a, of now w]
  show "snd (start env now w) = None"
    and "\<exists>mid. trace (fst (start env now w)) =
              trace w @ Selected (map post_id (select_due now (posts w))) # mid @ [TimerArmed checkInterval]
            \<and> arms mid = []"
    by simp_all
  from checkScheduledPosts_trace [OF a, of now w]
  obtain mid n where m: "trace (fst (checkScheduledPosts env now w)) =
          trace w @ Selected (map post_id (select_due now (posts w))) # mid"
    and pc: "publish_calls mid = take n (map post_id (select_due now (posts w)))"
    by (elim exE conjE)
  have "set (publish_calls mid) \<subseteq> post_id ` set (select_due now (posts w))"
    unfolding pc using set_take_subset [of n "map post_id (select_due now (posts w))"] by simp
  with m show "\<exists>mid. trace (fst (checkScheduledPosts env now w)) =
              trace w @ Selected (map post_id (select_due now (posts w))) # mid
            \<and> set (publish_calls mid) \<subseteq> post_id ` set (select_due now (posts w))"
    by (intro exI [of _ mid] conjI)
qed

lemma select_due_world0: "select_due 5000 (posts world0) = [post_a, post_b]"
  by (simp add: select_due_def is_due_def world0_def post_a_def post_b_def post_c_def)

theorem tick_selects_due_posts_witness:
  "select_outcome backend_ok = None
   \<and> select_due 5000 (posts world0) = [post_a, post_b]
   \<and> post_c \<in> set (posts world0) \<and> status post_c = Draft \<and> post_c \<notin> set (select_due 5000 (posts world0))
   \<and> trace (fst (start backend_ok 5000 world0)) =
       [Selected [''a'', ''b''],
        PublishCalled ''a'', StatusWritten ''a'' Published,
        PublishCalled ''b'', StatusWritten ''b'' Published,
        TimerArmed 300000]"
proof -
  have s: "select_outcome backend_ok = None"
    by (simp add: backend_ok_def)
  have c: "post_c \<in> set (posts world0)" "status post_c = Draft"
    by (simp_all add: world0_def post_c_def)
  from tick_selects_due_posts [of post_c 5000 "posts world0" backend_ok world0] c
  have n: "post_c \<notin> set (select_due 5000 (posts world0))"
    by simp
  have t: "trace (fst (start backend_ok 5000 world0)) =
       [Selected [''a'', ''b''],
        PublishCalled ''a'', StatusWritten ''a'' Published,
        PublishCalled ''b'', StatusWritten ''b'' Published,
        TimerArmed 300000]"
    by (simp add: start_def checkScheduledPosts_def select_due_world0 processScheduledPost_def
        begin_publish_def finish_publish_def update_status_def initializeAnalytics_def
        backend_ok_def checkInterval_def)
       (simp add: post_a_def post_b_def world0_def)
  from s c n t select_due_world0 show ?thesis by simp
qed

lemma status_of_write:
  "status_of pid (map (\<lambda>q. if post_id q = pid' then write_row st err now q else q) ps) =
     (if pid = pid' then map_option (\<lambda>s. st) (status_of pid ps) else status_of pid ps)"
  by (induction ps) (auto simp: status_of_def write_row_def split: option.splits)

lemma update_status_posts:
  "status_of pid (posts (fst (update_status env now pid' st err w))) =
     (if pid = pid' \<and> update_outcome env pid' st = Applied
      then map_option (\<lambda>s. st) (status_of pid (posts w)) else status_of pid (posts w))"
  by (cases "update_outcome env pid' st") (simp_all add: update_status_def status_of_write)

lemma finish_publish_status:
  assumes "update_outcome env (post_id p) Failed = Applied"
    and "update_outcome env (post_id p) Published \<noteq> Refused"
  shows "status_of pid (posts (fst (finish_publish env now p w))) =
     (if pid = post_id p
      then map_option (\<lambda>s. if publishPost env p = None \<and> update_outcome env (post_id p) Published = Applied
                             then Published else Failed) (status_of pid (posts w))
      else status_of pid (posts w))"
proof (cases "publishPost env p")
  case (Some e)
  then show ?thesis
    using assms(1) by (simp add: finish_publish_def on_failure_def update_status_posts)
next
  case None
  show ?thesis
  proof (cases "update_outcome env (post_id p) Published")
    case Applied
    with None show ?thesis
      using update_status_posts [of pid env now "post_id p" Published None w]
      by (simp add: finish_publish_def update_status_def)
  next
    case Refused
    with assms(2) show ?thesis by simp
  next
    case (Rejected e)
    with None show ?thesis
      using assms(1) by (simp add: finish_publish_def on_failure_def update_status_def status_of_write)
  qed
qed

lemma row_of_write:
  "row_of pid (map (\<lambda>q. if post_id q = pid then write_row st err now q else q) ps) =
     map_option (write_row st err now) (row_of pid ps)"
  by (induction ps) (auto simp: row_of_def write_row_def split: option.splits)

lemma update_status_row:
  "update_outcome env pid st = Applied \<Longrightarrow>
   row_of pid (posts (fst (update_status env now pid st err w))) =
     map_option (write_row st err now) (row_of pid (posts w))"
  by (simp add: update_status_def row_of_write)

lemma finish_publish_row:
  assumes "update_outcome env (post_id p) Failed = Applied"
    and "update_outcome env (post_id p) Published \<noteq> Refused"
    and "row_of (post_id p) (posts w) = Some r0"
  shows "row_of (post_id p) (posts (fst (finish_publish env now p w))) =
     Some (case caught env p of
             None \<Rightarrow> write_row Published None now r0
           | Some e \<Rightarrow> write_row Failed (Some (message e)) now r0)"
proof (cases "publishPost env p")
  case (Some e)
  then show ?thesis
    using assms(1,3) by (simp add: finish_publish_def on_failure_def update_status_row caught_def)
next
  case None
  show ?thesis
  proof (cases "update_outcome env (post_id p) Published")
    case Applied
    have "finish_publish env now p w =
        (initializeAnalytics env p (fst (update_status env now (post_id p) Published None w)), None)"
      using None Applied by (simp add: finish_publish_def update_status_def)
    then show ?thesis
      using None Applied assms(3) by (simp add: update_status_row caught_def)
  next
    case Refused
    with assms(2) show ?thesis by simp
  next
    case (Rejected e)
    have "finish_publish env now p w = on_failure env now p e w"
      using None Rejected by (simp add: finish_publish_def update_status_def)
    then show ?thesis
      using None Rejected assms(1,3) by (simp add: on_failure_def update_status_row caught_def)
  qed
qed

text \<open>
  Claim C1, as the code has it. The scheduler has one outcome for a post, that of the
  single call of \<^verbatim>\<open>publishPost\<close>. When the status writes go through (the write of
  \<open>failed\<close> is applied and the write of \<open>published\<close> is applied or rejected), a processed
  post of the table ends \<open>published\<close> exactly when \<^verbatim>\<open>publishPost\<close> returned and the
  write of \<open>published\<close> was applied, and \<open>failed\<close> otherwise, and then its error text is
  the message of what was thrown (\<open>Unknown error\<close> for a value that is no \<^verbatim>\<open>Error\<close>);
  the whole row is the old row with that status, that error text and the new
  \<^verbatim>\<open>updated_at\<close>. The post never stays \<open>scheduled\<close>, the call returns, and no other
  post changes status.
\<close>

theorem post_status_after_processing:
  assumes "update_outcome env (post_id p) Failed = Applied"
    and "update_outcome env (post_id p) Published \<noteq> Refused"
    and "row_of (post_id p) (posts w) = Some r0"
  shows "status_of (post_id p) (posts (fst (processScheduledPost env now p w))) =
           Some (if publishPost env p = None \<and> update_outcome env (post_id p) Published = Applied
                 then Published else Failed)
     \<and> status_of (post_id p) (posts (fst (processScheduledPost env now p w))) \<noteq> Some Scheduled
     \<and> row_of (post_id p) (posts (fst (processScheduledPost env now p w))) =
           Some (case caught env p of
                   None \<Rightarrow> write_row Published None now r0
                 | Some e \<Rightarrow> write_row Failed (Some (message e)) now r0)
     \<and> (\<forall>e. caught env p = Some e \<longrightarrow>
           error_of (post_id p) (posts (fst (processScheduledPost env now p w))) = Some (Some (message e)))
     \<and> snd (processScheduledPost env now p w) = None
     \<and> (pid \<noteq> post_id p \<longrightarrow>
          status_of pid (posts (fst (processScheduledPost env now p w))) = status_of pid (posts w))"
proof -
  have b: "posts (begin_publish p w) = posts w"
    by (simp add: begin_publish_def)
  have s0: "status_of (post_id p) (posts w) = Some (status r0)"
    using assms(3) by (simp add: status_of_def row_of_def)
  have 1: "status_of (post_id p) (posts (fst (processScheduledPost env now p w))) =
           Some (if publishPost env p = None \<and> update_outcome env (post_id p) Published = Applied
                 then Published else Failed)"
    using finish_publish_status [OF assms(1,2), of "post_id p" now "begin_publish p w"] s0
    by (simp add: processScheduledPost_def b)
  have 2: "snd (processScheduledPost env now p w) = None"
    using assms(1) by (simp add: processScheduledPost_throws)
  have 3: "pid \<noteq> post_id p \<longrightarrow>
          status_of pid (posts (fst (processScheduledPost env now p w))) = status_of pid (posts w)"
    using finish_publish_status [OF assms(1,2), of pid now "begin_publish p w"]
    by (simp add: processScheduledPost_def b)
  have 4: "row_of (post_id p) (posts (fst (processScheduledPost env now p w))) =
           Some (case caught env p of
                   None \<Rightarrow> write_row Published None now r0
                 | Some e \<Rightarrow> write_row Failed (Some (message e)) now r0)"
    using finish_publish_row [OF assms(1,2), of "begin_publish p w" r0 now] assms(3)
    by (simp add: processScheduledPost_def b)
  have 5: "\<forall>e. caught env p = Some e \<longrightarrow>
           error_of (post_id p) (posts (fst (processScheduledPost env now p w))) = Some (Some (message e))"
    by (simp add: error_of_def 4 write_row_def)
  from 1 2 3 4 5 show ?thesis by simp
qed

lemma status_a_world0: "status_of ''a'' (posts world0) = Some Scheduled"
  by (simp add: status_of_def world0_def post_a_def)

lemma status_b_world0: "status_of ''b'' (posts world0) = Some Scheduled"
  by (simp add: status_of_def world0_def post_a_def post_b_def)

theorem post_status_after_processing_witness:
  "update_outcome backend_timeout (post_id post_a) Failed = Applied
   \<and> update_outcome backend_timeout (post_id post_a) Published \<noteq> Refused
   \<and> row_of (post_id post_a) (posts world0) = Some post_a
   \<and> publishPost backend_timeout post_a = Some (Error ''timeout'')
   \<and> row_of (post_id post_a) (posts (fst (processScheduledPost backend_timeout 5000 post_a world0))) =
       Some (post_a\<lparr>status := Failed, error := Some ''timeout'', updated_at := 5000\<rparr>)
   \<and> status_of (post_id post_a) (posts (fst (processScheduledPost backend_timeout 5000 post_a world0))) = Some Failed
   \<and> error_of (post_id post_a) (posts (fst (processScheduledPost backend_timeout 5000 post_a world0))) =
       Some (Some ''timeout'')
   \<and> status_of ''b'' (posts (fst (processScheduledPost backend_timeout 5000 post_a world0))) = Some Scheduled"
proof -
  have a: "update_outcome backend_timeout (post_id post_a) Failed = Applied"
    and b: "update_outcome backend_timeout (post_id post_a) Published \<noteq> Refused"
    and p: "publishPost backend_timeout post_a = Some (Error ''timeout'')"
    by (simp_all add: backend_timeout_def backend_ok_def)
  have i: "post_id post_a = ''a''" by (simp add: post_a_def)
  have c: "row_of (post_id post_a) (posts world0) = Some post_a"
    by (simp add: row_of_def world0_def post_a_def)
  have k: "caught backend_timeout post_a = Some (Error ''timeout'')"
    by (simp add: caught_def p)
  from post_status_after_processing [OF a b c, of 5000 "''b''"] p i k status_b_world0
  have "row_of (post_id post_a) (posts (fst (processScheduledPost backend_timeout 5000 post_a world0))) =
       Some (post_a\<lparr>status := Failed, error := Some ''timeout'', updated_at := 5000\<rparr>)
   \<and> status_of (post_id post_a) (posts (fst (processScheduledPost backend_timeout 5000 post_a world0))) = Some Failed
   \<and> error_of (post_id post_a) (posts (fst (processScheduledPost backend_timeout 5000 post_a world0))) =
       Some (Some ''timeout'')
   \<and> status_of ''b'' (posts (fst (processScheduledPost backend_timeout 5000 post_a world0))) = Some Scheduled"
    by (simp add: write_row_def)
  with a b c p show ?thesis by simp
qed

text \<open>
  Claim C1 as stated keeps a post \<open>scheduled\<close> when no target failed terminally and not
  all were published. For a post with the pages A and B where A is published and B fails
  with a retryable timeout, the rollup of the specification is \<open>scheduled\<close>; the
  scheduler sets \<open>published\<close> when \<^verbatim>\<open>publishPost\<close> returns and \<open>failed\<close> when it throws
  the timeout, and has no third case.
\<close>

theorem rollup_counterexample:
  "post_pages post_a = [''A'', ''B'']
   \<and> rollup_spec [PublishedOk, RetryableFailure ''timeout''] = Scheduled
   \<and> status_of ''a'' (posts (fst (processScheduledPost backend_ok 5000 post_a world0))) = Some Published
   \<and> status_of ''a'' (posts (fst (processScheduledPost backend_timeout 5000 post_a world0))) = Some Failed"
  by (simp add: rollup_spec_def processScheduledPost_def begin_publish_def finish_publish_def
      on_failure_def update_status_def initializeAnalytics_def backend_timeout_def backend_ok_def
      status_of_def world0_def post_a_def post_b_def post_c_def write_row_def)

text \<open>
  The steps of the event loop and the function \<^verbatim>\<open>checkScheduledPosts\<close> agree: when the
  timer fires and the check it starts runs to its end before anything else happens, the
  world afterwards is that of the function.
\<close>

lemma run_tick_alone:
  "k < length (ticks rt) \<Longrightarrow> ticks rt ! k = \<lparr>queue = ps, awaiting = None\<rparr> \<Longrightarrow>
   \<exists>sched rt'. run env sched rt = Some rt'
      \<and> set sched \<subseteq> {Dispatch k, Settle k now}
      \<and> shared rt' = fst (process_posts env now ps (shared rt))"
proof (induction ps arbitrary: rt)
  case Nil
  have "run env [] rt = Some rt" by simp
  then show ?case
    by (intro exI [of _ "[]"] exI [of _ rt]) simp
next
  case (Cons p ps)
  define rt1 where "rt1 = rt\<lparr>shared := begin_publish p (shared rt),
                      ticks := (ticks rt)[k := \<lparr>queue = ps, awaiting = Some p\<rparr>]\<rparr>"
  have d: "step env (Dispatch k) rt = Some rt1"
    using Cons.prems by (simp add: rt1_def)
  have k1: "k < length (ticks rt1)" and t1: "ticks rt1 ! k = \<lparr>queue = ps, awaiting = Some p\<rparr>"
    and s1: "shared rt1 = begin_publish p (shared rt)"
    using Cons.prems by (simp_all add: rt1_def)
  obtain w' r where f: "finish_publish env now p (shared rt1) = (w', r)"
    by (cases "finish_publish env now p (shared rt1)")
  then have pr: "processScheduledPost env now p (shared rt) = (w', r)"
    by (simp add: processScheduledPost_def s1)
  show ?case
  proof (cases r)
    case (Some e)
    define rt2 where "rt2 = rt1\<lparr>shared := w', ticks := (ticks rt1)[k := \<lparr>queue = [], awaiting = None\<rparr>]\<rparr>"
    have s: "step env (Settle k now) rt1 = Some rt2"
      using k1 t1 f Some by (simp add: rt2_def)
    have r2: "run env [Dispatch k, Settle k now] rt = Some rt2"
      by (simp add: d s del: step.simps)
    have "shared rt2 = fst (process_posts env now (p # ps) (shared rt))"
      using pr Some by (simp add: rt2_def)
    with r2 show ?thesis
      by (intro exI [of _ "[Dispatch k, Settle k now]"] exI [of _ rt2]) simp
  next
    case None
    define rt2 where "rt2 = rt1\<lparr>shared := w', ticks := (ticks rt1)[k := (ticks rt1 ! k)\<lparr>awaiting := None\<rparr>]\<rparr>"
    have s: "step env (Settle k now) rt1 = Some rt2"
      using k1 t1 f None by (simp add: rt2_def)
    have k2: "k < length (ticks rt2)" and t2: "ticks rt2 ! k = \<lparr>queue = ps, awaiting = None\<rparr>"
      and s2: "shared rt2 = w'"
      using k1 t1 by (simp_all add: rt2_def)
    from Cons.IH [OF k2 t2]
    obtain sched rt' where ih: "run env sched rt2 = Some rt'
      \<and> set sched \<subseteq> {Dispatch k, Settle k now}
      \<and> shared rt' = fst (process_posts env now ps (shared rt2))"
      by (elim exE)
    have r2: "run env (Dispatch k # Settle k now # sched) rt = Some rt'"
      using ih by (simp add: d s del: step.simps)
    have "shared rt' = fst (process_posts env now (p # ps) (shared rt))"
      using ih pr None by (simp add: s2)
    with r2 ih show ?thesis
      by (intro exI [of _ "Dispatch k # Settle k now # sched"] exI [of _ rt']) simp
  qed
qed

lemma sequential_run_is_check:
  assumes "select_outcome env = None"
  shows "\<exists>sched rt'. run env (TimerFires now # sched) rt = Some rt'
      \<and> set sched \<subseteq> {Dispatch (length (ticks rt)), Settle (length (ticks rt)) now}
      \<and> shared rt' = fst (checkScheduledPosts env now (shared rt))"
proof -
  define due where "due = select_due now (posts (shared rt))"
  define rt0 where "rt0 = rt\<lparr>shared := (shared rt)\<lparr>trace := trace (shared rt) @ [Selected (map post_id due)]\<rparr>,
                    ticks := ticks rt @ [\<lparr>queue = due, awaiting = None\<rparr>]\<rparr>"
  have t: "step env (TimerFires now) rt = Some rt0"
    using assms by (simp add: rt0_def due_def Let_def)
  have k: "length (ticks rt) < length (ticks rt0)"
    and q: "ticks rt0 ! length (ticks rt) = \<lparr>queue = due, awaiting = None\<rparr>"
    by (simp_all add: rt0_def)
  from run_tick_alone [OF k q, of env now]
  obtain sched rt' where r: "run env sched rt0 = Some rt'
      \<and> set sched \<subseteq> {Dispatch (length (ticks rt)), Settle (length (ticks rt)) now}
      \<and> shared rt' = fst (process_posts env now due (shared rt0))"
    by (elim exE)
  have c: "fst (checkScheduledPosts env now (shared rt)) = fst (process_posts env now due (shared rt0))"
    using assms
    by (cases "process_posts env now due (shared rt0)";
        cases "snd (process_posts env now due (shared rt0))")
       (simp_all add: checkScheduledPosts_def Let_def due_def rt0_def)
  have "run env (TimerFires now # sched) rt = Some rt'"
    using r by (simp add: t del: step.simps)
  with r c show ?thesis
    by (intro exI [of _ sched] exI [of _ rt']) simp
qed

text \<open>
  Claim C4, as the code has it. Within one check, on a table with distinct ids and a
  query that succeeds, \<^verbatim>\<open>publishPost\<close> is called for an initial part of the selected
  posts in order, each at most once, and for every selected post exactly once when no
  write of \<open>failed\<close> is rejected. Nothing marks a post as being published, so this holds
  for one check alone, not across checks that overlap.
\<close>
theorem single_tick_dispatch:
  assumes "distinct (map post_id (posts w))" and "select_outcome env = None"
  shows "\<exists>mid n. trace (fst (checkScheduledPosts env now w)) =
            trace w @ Selected (map post_id (select_due now (posts w))) # mid
      \<and> publish_calls mid = take n (map post_id (select_due now (posts w)))
      \<and> distinct (publish_calls mid)
      \<and> ((\<forall>p \<in> set (select_due now (posts w)). \<forall>e. update_outcome env (post_id p) Failed \<noteq> Rejected e)
            \<longrightarrow> publish_calls mid = map post_id (select_due now (posts w)))"
proof -
  let ?ids = "map post_id (select_due now (posts w))"
  from checkScheduledPosts_trace [OF assms(2), of now w]
  obtain mid n where m: "trace (fst (checkScheduledPosts env now w)) = trace w @ Selected ?ids # mid"
    and pc: "publish_calls mid = take n ?ids"
    and all: "(\<forall>p \<in> set (select_due now (posts w)). \<forall>e. update_outcome env (post_id p) Failed \<noteq> Rejected e)
            \<longrightarrow> n = length (select_due now (posts w))"
    by (elim exE conjE)
  have d: "distinct (publish_calls mid)"
    unfolding pc using select_due_distinct [OF assms(1), of now] by (rule distinct_take)
  have full: "(\<forall>p \<in> set (select_due now (posts w)). \<forall>e. update_outcome env (post_id p) Failed \<noteq> Rejected e)
            \<longrightarrow> publish_calls mid = ?ids"
    using all pc by simp
  from m pc d full show ?thesis
    by (intro exI [of _ mid] exI [of _ n] conjI)
qed

theorem single_tick_dispatch_witness:
  "distinct (map post_id (posts world0)) \<and> select_outcome backend_timeout = None
   \<and> list_all (\<lambda>p. update_outcome backend_timeout (post_id p) Failed = Applied) (select_due 5000 (posts world0))
   \<and> publish_calls (trace (fst (checkScheduledPosts backend_timeout 5000 world0))) = [''a'', ''b'']"
proof -
  have d: "distinct (map post_id (posts world0))"
    by (simp add: world0_def post_a_def post_b_def post_c_def)
  have s: "select_outcome backend_timeout = None"
    by (simp add: backend_timeout_def backend_ok_def)
  have u: "\<And>pid. update_outcome backend_timeout pid Failed = Applied"
    by (simp add: backend_timeout_def backend_ok_def)
  have t0: "trace world0 = []" by (simp add: world0_def)
  have ids: "map post_id (select_due 5000 (posts world0)) = [''a'', ''b'']"
    by (simp add: select_due_world0 post_a_def post_b_def)
  from single_tick_dispatch [OF d s, of 5000]
  obtain mid where m: "trace (fst (checkScheduledPosts backend_timeout 5000 world0)) =
            trace world0 @ Selected (map post_id (select_due 5000 (posts world0))) # mid"
    and full: "(\<forall>p \<in> set (select_due 5000 (posts world0)).
                 \<forall>e. update_outcome backend_timeout (post_id p) Failed \<noteq> Rejected e)
            \<longrightarrow> publish_calls mid = map post_id (select_due 5000 (posts world0))"
    by (elim exE conjE)
  from full u have "publish_calls mid = [''a'', ''b'']"
    by (simp add: ids)
  with m have "publish_calls (trace (fst (checkScheduledPosts backend_timeout 5000 world0))) = [''a'', ''b'']"
    by (simp add: t0)
  with d s u show ?thesis by (simp add: list_all_iff)
qed

text \<open>
  Claim C4 as stated says no post is dispatched twice by overlapping ticks. The first
  check selects the posts a and b and calls \<^verbatim>\<open>publishPost\<close> for a; while that call is
  pending the timer fires again, the second check selects a and b again (a is still
  \<open>scheduled\<close>) and calls \<^verbatim>\<open>publishPost\<close> for a a second time.
\<close>

theorem overlapping_ticks_counterexample:
  "observed (run backend_ok [TimerFires 5000, Dispatch 0, TimerFires 305000, Dispatch 1] runtime0)
     = Some [Selected [''a'', ''b''], PublishCalled ''a'', Selected [''a'', ''b''], PublishCalled ''a'']
   \<and> publish_calls [Selected [''a'', ''b''], PublishCalled ''a'', Selected [''a'', ''b''], PublishCalled ''a'']
     = [''a'', ''a'']
   \<and> observed (run backend_ok [TimerFires 5000, Dispatch 0, TimerFires 305000, Dispatch 1,
                      Settle 0 306000, Settle 1 307000] runtime0)
     = Some [Selected [''a'', ''b''], PublishCalled ''a'', Selected [''a'', ''b''], PublishCalled ''a'',
             StatusWritten ''a'' Published, StatusWritten ''a'' Published]"
  by (simp add: observed_def runtime0_def world0_def select_due_def is_due_def post_a_def post_b_def post_c_def
      backend_ok_def begin_publish_def finish_publish_def update_status_def initializeAnalytics_def
      status_of_def write_row_def)

text \<open>
  What holds of a check whatever fails. A check never throws, whatever its
  collaborators do. When the query succeeds and no write of \<open>failed\<close> is rejected,
  \<^verbatim>\<open>publishPost\<close> is called for every selected post, whatever else fails for a post:
  what \<^verbatim>\<open>publishPost\<close> throws, what the write of \<open>published\<close> throws and what the
  insert of the analytics rows throws stay inside the processing of that post. And the
  next check makes its selection on the table the check left, whatever happened in it.
\<close>

lemma tick_contains_failures:
  "snd (checkScheduledPosts env now w) = None
   \<and> (select_outcome env = None
        \<and> (\<forall>p \<in> set (select_due now (posts w)). \<forall>e. update_outcome env (post_id p) Failed \<noteq> Rejected e) \<longrightarrow>
      publish_calls (trace (fst (checkScheduledPosts env now w))) =
        publish_calls (trace w) @ map post_id (select_due now (posts w)))
   \<and> (select_outcome env' = None \<longrightarrow>
        (\<exists>mid. trace (fst (checkScheduledPosts env' now' (fst (checkScheduledPosts env now w)))) =
           trace (fst (checkScheduledPosts env now w))
             @ Selected (map post_id (select_due now' (posts (fst (checkScheduledPosts env now w))))) # mid))"
proof (intro conjI impI)
  show "snd (checkScheduledPosts env now w) = None"
    by (rule checkScheduledPosts_returns)
next
  assume a: "select_outcome env = None
        \<and> (\<forall>p \<in> set (select_due now (posts w)). \<forall>e. update_outcome env (post_id p) Failed \<noteq> Rejected e)"
  then have s: "select_outcome env = None" by simp
  from checkScheduledPosts_trace [OF s, of now w]
  obtain mid n where m: "trace (fst (checkScheduledPosts env now w)) =
          trace w @ Selected (map post_id (select_due now (posts w))) # mid"
    and pc: "publish_calls mid = take n (map post_id (select_due now (posts w)))"
    and all: "(\<forall>p \<in> set (select_due now (posts w)). \<forall>e. update_outcome env (post_id p) Failed \<noteq> Rejected e)
            \<longrightarrow> n = length (select_due now (posts w))"
    by (elim exE conjE)
  from a all have "n = length (select_due now (posts w))" by simp
  with pc have "publish_calls mid = map post_id (select_due now (posts w))" by simp
  then show "publish_calls (trace (fst (checkScheduledPosts env now w))) =
        publish_calls (trace w) @ map post_id (select_due now (posts w))"
    by (simp add: m publish_calls_append)
next
  assume s: "select_outcome env' = None"
  from checkScheduledPosts_trace [OF s, of now' "fst (checkScheduledPosts env now w)"]
  obtain mid where "trace (fst (checkScheduledPosts env' now' (fst (checkScheduledPosts env now w)))) =
           trace (fst (checkScheduledPosts env now w))
             @ Selected (map post_id (select_due now' (posts (fst (checkScheduledPosts env now w))))) # mid"
    by (elim exE conjE)
  then show "\<exists>mid. trace (fst (checkScheduledPosts env' now' (fst (checkScheduledPosts env now w)))) =
           trace (fst (checkScheduledPosts env now w))
             @ Selected (map post_id (select_due now' (posts (fst (checkScheduledPosts env now w))))) # mid"
    by (rule exI)
qed

lemma tick_backend_down:
  "checkScheduledPosts backend_down 5000 world0 =
     (world0\<lparr>trace := [Selected [''a'', ''b''], PublishCalled ''a'']\<rparr>, None)"
  by (simp add: checkScheduledPosts_def select_due_world0 processScheduledPost_def
      begin_publish_def finish_publish_def on_failure_def update_status_def
      backend_down_def backend_timeout_def backend_ok_def)
     (simp add: post_a_def post_b_def world0_def)

lemma tick_contains_failures_at_timeout:
  "select_outcome backend_timeout = None
   \<and> list_all (\<lambda>p. update_outcome backend_timeout (post_id p) Failed = Applied) (select_due 5000 (posts world0))
   \<and> publishPost backend_timeout post_a = Some (Error ''timeout'')
   \<and> snd (checkScheduledPosts backend_timeout 5000 world0) = None
   \<and> publish_calls (trace (fst (checkScheduledPosts backend_timeout 5000 world0))) = [''a'', ''b'']"
proof -
  have s: "select_outcome backend_timeout = None"
    and p: "publishPost backend_timeout post_a = Some (Error ''timeout'')"
    by (simp_all add: backend_timeout_def backend_ok_def)
  have u: "\<And>pid. update_outcome backend_timeout pid Failed = Applied"
    by (simp add: backend_timeout_def backend_ok_def)
  have ids: "map post_id (select_due 5000 (posts world0)) = [''a'', ''b'']"
    by (simp add: select_due_world0 post_a_def post_b_def)
  have t0: "trace world0 = []" by (simp add: world0_def)
  from tick_contains_failures [of backend_timeout 5000 world0 backend_timeout 5000] s u
  have "snd (checkScheduledPosts backend_timeout 5000 world0) = None
    \<and> publish_calls (trace (fst (checkScheduledPosts backend_timeout 5000 world0))) =
        publish_calls (trace world0) @ map post_id (select_due 5000 (posts world0))"
    by simp
  with s u p show ?thesis
    by (simp add: ids t0 list_all_iff)
qed

text \<open>
  Claim C9 says that a failure anywhere in the publish path of a post, the write of
  \<open>failed\<close> included, never keeps the remaining due posts of the tick from being
  processed. The code does otherwise at this input: the publish of the post a throws
  and the write of \<open>failed\<close> for it is rejected. The rejection leaves the \<^verbatim>\<open>catch\<close> of
  \<^verbatim>\<open>processScheduledPost\<close>, where the write is awaited unguarded, and ends the loop:
  \<^verbatim>\<open>publishPost\<close> is never called for the post b, which was selected in the same
  check and stays \<open>scheduled\<close>. The check itself returns.
\<close>

theorem write_back_failure_ends_tick:
  "map post_id (select_due 5000 (posts world0)) = [''a'', ''b'']
   \<and> publishPost backend_down post_a = Some (Error ''timeout'')
   \<and> update_outcome backend_down ''a'' Failed = Rejected (Error ''fetch failed'')
   \<and> snd (checkScheduledPosts backend_down 5000 world0) = None
   \<and> publish_calls (trace (fst (checkScheduledPosts backend_down 5000 world0))) = [''a'']
   \<and> status_of ''b'' (posts (fst (checkScheduledPosts backend_down 5000 world0))) = Some Scheduled"
  by (simp add: tick_backend_down select_due_world0 status_b_world0)
     (simp add: post_a_def post_b_def backend_down_def backend_timeout_def backend_ok_def)

end
